theory Spec2Isabelle
  imports Complex_Main "HOL-Library.Stream" "HOL-Library.Monad_Syntax"
begin

section \<open>Data model of the sampler (src/app/simulator.tsx)\<close>

text \<open>
  The TypeScript \<open>number\<close> is an IEEE double; it is idealised here as a \<open>real\<close>, so
  rounding, overflow and NaN are outside the model. The one non-finite value the kernels
  produce on purpose, \<open>Math.log(0) = -Infinity\<close>, is kept (type \<open>logval\<close> below).
  The slider-driven counts \<open>stepsPerFrame\<close> and \<open>hmcSteps\<close> are set with \<open>parseInt\<close> and
  are modelled as \<open>int\<close>.
\<close>

datatype AlgoType = rwm | mh | slice | elliptical | hitnrun | hmc

datatype TargetType = gaussian | bimodal | donut | banana

text \<open>\<open>interface Point { x; y }\<close>, \<open>interface Sample extends Point { accepted }\<close>, and the
  object a kernel returns: a sample with an optional \<open>path\<close> (absent is \<open>None\<close>).\<close>

record Point =
  pt_x :: real
  pt_y :: real

record Sample = Point +
  accepted :: bool

record Proposal = Sample +
  path :: "Point list option"

record Params =
  stepSize :: real
  stepsPerFrame :: int
  hmcSteps :: int
  hmcEpsilon :: real

record Gradient =
  grad_dx :: real
  grad_dy :: real

record StateRef =
  st_x :: real
  st_y :: real
  samples :: "Sample list"
  currentPath :: "Point list option"

section \<open>Target densities and their gradients\<close>

fun LOG_PROBS :: "TargetType \<Rightarrow> real \<Rightarrow> real \<Rightarrow> real" where
  "LOG_PROBS gaussian x y = - 0.5 * (x * x + y * y)"
| "LOG_PROBS bimodal x y =
     (let p1 = exp (- ((x + 1.5) ^ 2 + (y + 1.5) ^ 2) * 2);
          p2 = exp (- ((x - 1.5) ^ 2 + (y - 1.5) ^ 2) * 2)
      in ln (p1 + p2 + 1 / 10 ^ 9))"
| "LOG_PROBS donut x y =
     (let r = sqrt (x * x + y * y)
      in - 2 * ((r - 2.5) ^ 2))"
| "LOG_PROBS banana x y =
     (let a = 1; b = 5
      in - ((a - x) ^ 2 + b * (y - x * x) ^ 2) / 10)"

fun GRADIENTS :: "TargetType \<Rightarrow> real \<Rightarrow> real \<Rightarrow> Gradient" where
  "GRADIENTS gaussian x y = \<lparr>grad_dx = - x, grad_dy = - y\<rparr>"
| "GRADIENTS bimodal x y =
     (let e1 = exp (- ((x + 1.5) ^ 2 + (y + 1.5) ^ 2) * 2);
          e2 = exp (- ((x - 1.5) ^ 2 + (y - 1.5) ^ 2) * 2);
          sum = e1 + e2 + 1 / 10 ^ 9;
          dx = (e1 * - 4 * (x + 1.5) + e2 * - 4 * (x - 1.5)) / sum;
          dy = (e1 * - 4 * (y + 1.5) + e2 * - 4 * (y - 1.5)) / sum
      in \<lparr>grad_dx = dx, grad_dy = dy\<rparr>)"
| "GRADIENTS donut x y =
     (let r = sqrt (x * x + y * y) + 1 / 10 ^ 9;
          term = - 4 * (r - 2.5)
      in \<lparr>grad_dx = term * (x / r), grad_dy = term * (y / r)\<rparr>)"
| "GRADIENTS banana x y =
     (let b = 5;
          term2 = y - x * x;
          dx = - ((2 * (x - 1) + 2 * b * term2 * (- 2 * x)) / 10);
          dy = - ((2 * b * term2) / 10)
      in \<lparr>grad_dx = dx, grad_dy = dy\<rparr>)"

section \<open>Math utilities and the random source\<close>

text \<open>
  \<open>Math.random()\<close> is a hidden global generator. It is made explicit as the stream of
  the uniform draws it will return, each in \<open>[0, 1)\<close>; a call takes the head and leaves
  the tail.
\<close>

type_synonym rng = "real stream"

definition Math_random :: "rng \<Rightarrow> real \<times> rng" where
  "Math_random g = (shd g, stl g)"

definition PI2 :: real where
  "PI2 = pi * 2"

text \<open>\<open>Math.log\<close> on a draw from \<open>[0, 1)\<close>: \<open>-Infinity\<close> at \<open>0\<close>, finite elsewhere, and the
  three operations the kernels apply to it.\<close>

datatype logval = MinusInfinity | Finite real

definition Math_log :: "real \<Rightarrow> logval" where
  "Math_log u = (if u = 0 then MinusInfinity else Finite (ln u))"

fun log_less :: "logval \<Rightarrow> real \<Rightarrow> bool" where
  "log_less MinusInfinity d = True"
| "log_less (Finite l) d = (l < d)"

fun log_plus :: "real \<Rightarrow> logval \<Rightarrow> logval" where
  "log_plus c MinusInfinity = MinusInfinity"
| "log_plus c (Finite l) = Finite (c + l)"

fun exceeds :: "real \<Rightarrow> logval \<Rightarrow> bool" where
  "exceeds v MinusInfinity = True"
| "exceeds v (Finite t) = (v > t)"

text \<open>\<open>let u = 0; while (u === 0) u = Math.random();\<close> has no iteration cap: it is a
  partial function, \<open>None\<close> standing for a loop that never exits.\<close>

partial_function (option) draw_nonzero :: "rng \<Rightarrow> (real \<times> rng) option" where
  "draw_nonzero g =
     (case Math_random g of (u, g') \<Rightarrow> if u = 0 then draw_nonzero g' else Some (u, g'))"

definition randn :: "rng \<Rightarrow> (real \<times> rng) option" where
  "randn g = do {
     (u, g1) \<leftarrow> draw_nonzero g;
     (v, g2) \<leftarrow> draw_nonzero g1;
     Some (sqrt (- 2.0 * ln u) * cos (2.0 * pi * v), g2)
   }"

definition rand :: "real \<Rightarrow> real \<Rightarrow> rng \<Rightarrow> real \<times> rng" where
  "rand lo hi g = (case Math_random g of (u, g') \<Rightarrow> (u * (hi - lo) + lo, g'))"

section \<open>The six kernels\<close>

text \<open>\<open>{ ...current, accepted: false }\<close>: the current point, rejected, without a path.\<close>

definition rejected :: "Point \<Rightarrow> Proposal" where
  "rejected current =
     \<lparr>pt_x = pt_x current, pt_y = pt_y current, accepted = False, path = None\<rparr>"

definition stepRWM ::
  "Params \<Rightarrow> Point \<Rightarrow> (real \<Rightarrow> real \<Rightarrow> real) \<Rightarrow> rng \<Rightarrow> (Proposal \<times> rng) option" where
  "stepRWM params current lpFn g = do {
     (n1, g1) \<leftarrow> randn g;
     (n2, g2) \<leftarrow> randn g1;
     let xNew = pt_x current + n1 * stepSize params;
     let yNew = pt_y current + n2 * stepSize params;
     let currentLp = lpFn (pt_x current) (pt_y current);
     let newLp = lpFn xNew yNew;
     (u, g3) \<leftarrow> Some (Math_random g2);
     if log_less (Math_log u) (newLp - currentLp)
     then Some (\<lparr>pt_x = xNew, pt_y = yNew, accepted = True, path = None\<rparr>, g3)
     else Some (rejected current, g3)
   }"

definition logQ :: "real \<Rightarrow> real \<Rightarrow> real \<Rightarrow> real" where
  "logQ sigma x y = - 0.5 * (x * x + y * y) / (sigma * sigma)"

definition stepMH ::
  "Point \<Rightarrow> (real \<Rightarrow> real \<Rightarrow> real) \<Rightarrow> rng \<Rightarrow> (Proposal \<times> rng) option" where
  "stepMH current lpFn g = do {
     let sigma = 1.5;
     (n1, g1) \<leftarrow> randn g;
     (n2, g2) \<leftarrow> randn g1;
     let xNew = n1 * sigma;
     let yNew = n2 * sigma;
     let currentLp = lpFn (pt_x current) (pt_y current);
     let newLp = lpFn xNew yNew;
     let ratio = newLp + logQ sigma (pt_x current) (pt_y current) - currentLp - logQ sigma xNew yNew;
     (u, g3) \<leftarrow> Some (Math_random g2);
     if log_less (Math_log u) ratio
     then Some (\<lparr>pt_x = xNew, pt_y = yNew, accepted = True, path = None\<rparr>, g3)
     else Some (rejected current, g3)
   }"

text \<open>Slice sampling. The two step-out loops return the endpoint they stop at. The
  shrink loop returns \<open>Some\<close> of the object returned from inside the loop, or \<open>None\<close> when
  the loop ends at its cap and control falls through to the final \<open>return\<close>.\<close>

function slice_stepout_L ::
  "Params \<Rightarrow> Point \<Rightarrow> (real \<Rightarrow> real \<Rightarrow> real) \<Rightarrow> logval \<Rightarrow> real \<Rightarrow> real \<Rightarrow> nat \<Rightarrow> real \<Rightarrow> real" where
  "slice_stepout_L params current lpFn threshold dx dy loop L =
     (if loop < 100 \<and> exceeds (lpFn (pt_x current + L * dx) (pt_y current + L * dy)) threshold
      then slice_stepout_L params current lpFn threshold dx dy (loop + 1) (L - stepSize params)
      else L)"
  by pat_completeness auto
termination
  by (relation "measure (\<lambda>(params, current, lpFn, threshold, dx, dy, loop, L). 100 - loop)") auto

function slice_stepout_R ::
  "Params \<Rightarrow> Point \<Rightarrow> (real \<Rightarrow> real \<Rightarrow> real) \<Rightarrow> logval \<Rightarrow> real \<Rightarrow> real \<Rightarrow> nat \<Rightarrow> real \<Rightarrow> real" where
  "slice_stepout_R params current lpFn threshold dx dy loop R =
     (if loop < 100 \<and> exceeds (lpFn (pt_x current + R * dx) (pt_y current + R * dy)) threshold
      then slice_stepout_R params current lpFn threshold dx dy (loop + 1) (R + stepSize params)
      else R)"
  by pat_completeness auto
termination
  by (relation "measure (\<lambda>(params, current, lpFn, threshold, dx, dy, loop, R). 100 - loop)") auto

function slice_shrink ::
  "Point \<Rightarrow> (real \<Rightarrow> real \<Rightarrow> real) \<Rightarrow> logval \<Rightarrow> real \<Rightarrow> real \<Rightarrow> nat \<Rightarrow> real \<Rightarrow> real \<Rightarrow> rng
     \<Rightarrow> Proposal option \<times> rng" where
  "slice_shrink current lpFn threshold dx dy loop L R g =
     (if loop < 100 then
        (case rand L R g of (d, g') \<Rightarrow>
           let dist = d;
               newX = pt_x current + dist * dx;
               newY = pt_y current + dist * dy
           in if exceeds (lpFn newX newY) threshold
              then (Some \<lparr>pt_x = newX, pt_y = newY, accepted = True,
                          path = Some [\<lparr>pt_x = pt_x current + L * dx, pt_y = pt_y current + L * dy\<rparr>,
                                       \<lparr>pt_x = pt_x current + R * dx, pt_y = pt_y current + R * dy\<rparr>]\<rparr>, g')
              else if dist < 0
                then slice_shrink current lpFn threshold dx dy (loop + 1) dist R g'
                else slice_shrink current lpFn threshold dx dy (loop + 1) L dist g')
      else (None, g))"
  by pat_completeness auto
termination
  by (relation "measure (\<lambda>(current, lpFn, threshold, dx, dy, loop, L, R, g). 100 - loop)") auto

definition stepSlice ::
  "Params \<Rightarrow> Point \<Rightarrow> (real \<Rightarrow> real \<Rightarrow> real) \<Rightarrow> rng \<Rightarrow> Proposal \<times> rng" where
  "stepSlice params current lpFn g =
     (let currentLp = lpFn (pt_x current) (pt_y current) in
      case Math_random g of (u, g1) \<Rightarrow>
      let threshold = log_plus currentLp (Math_log u) in
      case Math_random g1 of (t, g2) \<Rightarrow>
      let theta = t * PI2;
          dx = cos theta;
          dy = sin theta in
      case Math_random g2 of (w, g3) \<Rightarrow>
      let L0 = - w * stepSize params;
          R0 = L0 + stepSize params;
          L = slice_stepout_L params current lpFn threshold dx dy 0 L0;
          R = slice_stepout_R params current lpFn threshold dx dy 0 R0
      in case slice_shrink current lpFn threshold dx dy 0 L R g3 of
           (Some result, g4) \<Rightarrow> (result, g4)
         | (None, g4) \<Rightarrow> (rejected current, g4))"

text \<open>Elliptical slice sampling: one capped shrink loop over the angle bracket.\<close>

function elliptical_shrink ::
  "Point \<Rightarrow> (real \<Rightarrow> real \<Rightarrow> real) \<Rightarrow> logval \<Rightarrow> real \<Rightarrow> real \<Rightarrow> nat \<Rightarrow> real \<Rightarrow> real \<Rightarrow> real \<Rightarrow> rng
     \<Rightarrow> Proposal option \<times> rng" where
  "elliptical_shrink current lpFn threshold nuX nuY loops theta thetaMin thetaMax g =
     (if loops < 50 then
        (let newX = pt_x current * cos theta + nuX * sin theta;
             newY = pt_y current * cos theta + nuY * sin theta
         in if exceeds (lpFn newX newY) threshold
            then (Some \<lparr>pt_x = newX, pt_y = newY, accepted = True, path = None\<rparr>, g)
            else
              (let thetaMin' = (if theta < 0 then theta else thetaMin);
                   thetaMax' = (if theta < 0 then thetaMax else theta)
               in case rand thetaMin' thetaMax' g of (theta', g') \<Rightarrow>
                    elliptical_shrink current lpFn threshold nuX nuY (loops + 1)
                      theta' thetaMin' thetaMax' g'))
      else (None, g))"
  by pat_completeness auto
termination
  by (relation "measure (\<lambda>(current, lpFn, threshold, nuX, nuY, loops, theta, thetaMin, thetaMax, g).
        50 - loops)") auto

definition stepElliptical ::
  "Point \<Rightarrow> (real \<Rightarrow> real \<Rightarrow> real) \<Rightarrow> rng \<Rightarrow> (Proposal \<times> rng) option" where
  "stepElliptical current lpFn g = do {
     (nuX, g1) \<leftarrow> randn g;
     (nuY, g2) \<leftarrow> randn g1;
     let currentLp = lpFn (pt_x current) (pt_y current);
     (u, g3) \<leftarrow> Some (Math_random g2);
     let threshold = log_plus currentLp (Math_log u);
     (t, g4) \<leftarrow> Some (Math_random g3);
     let theta = t * PI2;
     let thetaMin = theta - PI2;
     let thetaMax = theta;
     case elliptical_shrink current lpFn threshold nuX nuY 0 theta thetaMin thetaMax g4 of
       (Some result, g5) \<Rightarrow> Some (result, g5)
     | (None, g5) \<Rightarrow> Some (rejected current, g5)
   }"

text \<open>Hit-and-run: doubling step-out (cap 20 per side), then a shrink loop (cap 50).\<close>

function hitnrun_stepout_L ::
  "Point \<Rightarrow> (real \<Rightarrow> real \<Rightarrow> real) \<Rightarrow> logval \<Rightarrow> real \<Rightarrow> real \<Rightarrow> nat \<Rightarrow> real \<Rightarrow> real" where
  "hitnrun_stepout_L current lpFn threshold dx dy loop L =
     (if loop < 20 \<and> exceeds (lpFn (pt_x current + L * dx) (pt_y current + L * dy)) threshold
      then hitnrun_stepout_L current lpFn threshold dx dy (loop + 1) (L * 2)
      else L)"
  by pat_completeness auto
termination
  by (relation "measure (\<lambda>(current, lpFn, threshold, dx, dy, loop, L). 20 - loop)") auto

function hitnrun_stepout_R ::
  "Point \<Rightarrow> (real \<Rightarrow> real \<Rightarrow> real) \<Rightarrow> logval \<Rightarrow> real \<Rightarrow> real \<Rightarrow> nat \<Rightarrow> real \<Rightarrow> real" where
  "hitnrun_stepout_R current lpFn threshold dx dy loop R =
     (if loop < 20 \<and> exceeds (lpFn (pt_x current + R * dx) (pt_y current + R * dy)) threshold
      then hitnrun_stepout_R current lpFn threshold dx dy (loop + 1) (R * 2)
      else R)"
  by pat_completeness auto
termination
  by (relation "measure (\<lambda>(current, lpFn, threshold, dx, dy, loop, R). 20 - loop)") auto

function hitnrun_shrink ::
  "Point \<Rightarrow> (real \<Rightarrow> real \<Rightarrow> real) \<Rightarrow> logval \<Rightarrow> real \<Rightarrow> real \<Rightarrow> nat \<Rightarrow> real \<Rightarrow> real \<Rightarrow> rng
     \<Rightarrow> Proposal option \<times> rng" where
  "hitnrun_shrink current lpFn threshold dx dy loop L R g =
     (if loop < 50 then
        (case rand L R g of (d, g') \<Rightarrow>
           let dist = d;
               newX = pt_x current + dist * dx;
               newY = pt_y current + dist * dy
           in if exceeds (lpFn newX newY) threshold
              then (Some \<lparr>pt_x = newX, pt_y = newY, accepted = True, path = None\<rparr>, g')
              else if dist < 0
                then hitnrun_shrink current lpFn threshold dx dy (loop + 1) dist R g'
                else hitnrun_shrink current lpFn threshold dx dy (loop + 1) L dist g')
      else (None, g))"
  by pat_completeness auto
termination
  by (relation "measure (\<lambda>(current, lpFn, threshold, dx, dy, loop, L, R, g). 50 - loop)") auto

definition stepHitAndRun ::
  "Point \<Rightarrow> (real \<Rightarrow> real \<Rightarrow> real) \<Rightarrow> rng \<Rightarrow> Proposal \<times> rng" where
  "stepHitAndRun current lpFn g =
     (case Math_random g of (t, g1) \<Rightarrow>
      let theta = t * PI2;
          dx = cos theta;
          dy = sin theta;
          currentLp = lpFn (pt_x current) (pt_y current) in
      case Math_random g1 of (u, g2) \<Rightarrow>
      let threshold = log_plus currentLp (Math_log u);
          L = hitnrun_stepout_L current lpFn threshold dx dy 0 (- 1.0);
          R = hitnrun_stepout_R current lpFn threshold dx dy 0 1.0
      in case hitnrun_shrink current lpFn threshold dx dy 0 L R g2 of
           (Some result, g3) \<Rightarrow> (result, g3)
         | (None, g3) \<Rightarrow> (rejected current, g3))"

text \<open>Hamiltonian Monte Carlo. The \<open>for\<close> loop carries
  \<open>(x, y, px, py, grad, trajectory)\<close>; \<open>trajectory.push\<close> appends.\<close>

function hmc_loop ::
  "Params \<Rightarrow> (real \<Rightarrow> real \<Rightarrow> Gradient) \<Rightarrow> int
     \<Rightarrow> real \<times> real \<times> real \<times> real \<times> Gradient \<times> Point list
     \<Rightarrow> real \<times> real \<times> real \<times> real \<times> Gradient \<times> Point list" where
  "hmc_loop params gradFn i (x, y, px, py, grad, trajectory) =
     (if i < hmcSteps params then
        (let x' = x + hmcEpsilon params * px;
             y' = y + hmcEpsilon params * py;
             trajectory' = trajectory @ [\<lparr>pt_x = x', pt_y = y'\<rparr>];
             grad' = gradFn x' y';
             px' = (if i \<noteq> hmcSteps params - 1 then px + hmcEpsilon params * grad_dx grad' else px);
             py' = (if i \<noteq> hmcSteps params - 1 then py + hmcEpsilon params * grad_dy grad' else py)
         in hmc_loop params gradFn (i + 1) (x', y', px', py', grad', trajectory'))
      else (x, y, px, py, grad, trajectory))"
  by pat_completeness auto
termination
  by (relation "measure (\<lambda>(params, gradFn, i, s). nat (hmcSteps params - i))") auto

definition stepHMC ::
  "Params \<Rightarrow> Point \<Rightarrow> (real \<Rightarrow> real \<Rightarrow> real) \<Rightarrow> (real \<Rightarrow> real \<Rightarrow> Gradient) \<Rightarrow> rng
     \<Rightarrow> (Proposal \<times> rng) option" where
  "stepHMC params current lpFn gradFn g = do {
     (initialPx, g1) \<leftarrow> randn g;
     (initialPy, g2) \<leftarrow> randn g1;
     let x0 = pt_x current;
     let y0 = pt_y current;
     let trajectory0 = [\<lparr>pt_x = x0, pt_y = y0\<rparr>];
     let grad0 = gradFn x0 y0;
     let px0 = initialPx + 0.5 * hmcEpsilon params * grad_dx grad0;
     let py0 = initialPy + 0.5 * hmcEpsilon params * grad_dy grad0;
     (x, y, px1, py1, grad, trajectory) \<leftarrow>
        Some (hmc_loop params gradFn 0 (x0, y0, px0, py0, grad0, trajectory0));
     let px = px1 + 0.5 * hmcEpsilon params * grad_dx grad;
     let py = py1 + 0.5 * hmcEpsilon params * grad_dy grad;
     let currentU = - lpFn (pt_x current) (pt_y current);
     let currentK = 0.5 * (initialPx ^ 2 + initialPy ^ 2);
     let proposedU = - lpFn x y;
     let proposedK = 0.5 * (px ^ 2 + py ^ 2);
     let currentH = currentU + currentK;
     let proposedH = proposedU + proposedK;
     (u, g3) \<leftarrow> Some (Math_random g2);
     if log_less (Math_log u) (currentH - proposedH)
     then Some (\<lparr>pt_x = x, pt_y = y, accepted = True, path = Some trajectory\<rparr>, g3)
     else Some (\<lparr>pt_x = pt_x current, pt_y = pt_y current, accepted = False,
                 path = Some trajectory\<rparr>, g3)
   }"

section \<open>The stepping loop of \<open>animate\<close>\<close>

text \<open>The \<open>switch (algo)\<close>; its \<open>default\<close> branch is unreachable for an \<open>AlgoType\<close>.\<close>

fun kernel_step ::
  "AlgoType \<Rightarrow> Params \<Rightarrow> Point \<Rightarrow> (real \<Rightarrow> real \<Rightarrow> real) \<Rightarrow> (real \<Rightarrow> real \<Rightarrow> Gradient) \<Rightarrow> rng
     \<Rightarrow> (Proposal \<times> rng) option" where
  "kernel_step rwm params current lpFn gradFn g = stepRWM params current lpFn g"
| "kernel_step mh params current lpFn gradFn g = stepMH current lpFn g"
| "kernel_step slice params current lpFn gradFn g = Some (stepSlice params current lpFn g)"
| "kernel_step elliptical params current lpFn gradFn g = stepElliptical current lpFn g"
| "kernel_step hitnrun params current lpFn gradFn g = Some (stepHitAndRun current lpFn g)"
| "kernel_step hmc params current lpFn gradFn g = stepHMC params current lpFn gradFn g"

text \<open>What the loop body does with a kernel's result (lines 394 to 400): move the position,
  replace the path (\<open>result.path || null\<close>), push the sample, and \<open>shift\<close> the oldest one
  out once the length exceeds 2000.\<close>

definition store_result :: "StateRef \<Rightarrow> Proposal \<Rightarrow> StateRef" where
  "store_result st result =
     (let pushed = samples st @ [\<lparr>pt_x = pt_x result, pt_y = pt_y result, accepted = accepted result\<rparr>]
      in \<lparr>st_x = pt_x result, st_y = pt_y result,
          samples = (if length pushed > 2000 then tl pushed else pushed),
          currentPath = path result\<rparr>)"

function animate_loop ::
  "AlgoType \<Rightarrow> TargetType \<Rightarrow> Params \<Rightarrow> int \<Rightarrow> StateRef \<Rightarrow> nat \<Rightarrow> rng
     \<Rightarrow> (StateRef \<times> nat \<times> rng) option" where
  "animate_loop algo target params k st accepts g =
     (if k < stepsPerFrame params then
        (let curr = \<lparr>pt_x = st_x st, pt_y = st_y st\<rparr> in
         case kernel_step algo params curr (LOG_PROBS target) (GRADIENTS target) g of
           None \<Rightarrow> None
         | Some (result, g') \<Rightarrow>
             animate_loop algo target params (k + 1) (store_result st result)
               (if accepted result then accepts + 1 else accepts) g')
      else Some (st, accepts, g))"
  by pat_completeness auto
termination
  by (relation "measure (\<lambda>(algo, target, params, k, st, accepts, g). nat (stepsPerFrame params - k))")
     auto

text \<open>The state \<open>reset\<close> installs.\<close>

definition reset_state :: StateRef where
  "reset_state = \<lparr>st_x = 0.1, st_y = 0.1, samples = [], currentPath = None\<rparr>"

section \<open>Reference definitions the properties are stated against\<close>






text \<open>The sample a result contributes to the history, and the last \<open>n\<close> entries of a list.\<close>

definition sample_of :: "Proposal \<Rightarrow> Sample" where
  "sample_of result = \<lparr>pt_x = pt_x result, pt_y = pt_y result, accepted = accepted result\<rparr>"

definition most_recent :: "nat \<Rightarrow> 'a list \<Rightarrow> 'a list" where
  "most_recent n xs = drop (length xs - n) xs"

text \<open>The state in which each slice-family kernel enters its shrink loop: threshold,
  direction (or angle bracket), the stepped-out bracket and the remaining random source.\<close>

definition slice_bracket ::
  "Params \<Rightarrow> Point \<Rightarrow> (real \<Rightarrow> real \<Rightarrow> real) \<Rightarrow> rng
     \<Rightarrow> logval \<times> real \<times> real \<times> real \<times> real \<times> rng" where
  "slice_bracket params current lpFn g =
     (let threshold = log_plus (lpFn (pt_x current) (pt_y current)) (Math_log (shd g));
          theta = shd (stl g) * PI2;
          dx = cos theta;
          dy = sin theta;
          L0 = - shd (stl (stl g)) * stepSize params;
          R0 = L0 + stepSize params
      in (threshold, dx, dy,
          slice_stepout_L params current lpFn threshold dx dy 0 L0,
          slice_stepout_R params current lpFn threshold dx dy 0 R0,
          stl (stl (stl g))))"

definition hitnrun_bracket ::
  "Point \<Rightarrow> (real \<Rightarrow> real \<Rightarrow> real) \<Rightarrow> rng \<Rightarrow> logval \<times> real \<times> real \<times> real \<times> real \<times> rng" where
  "hitnrun_bracket current lpFn g =
     (let theta = shd g * PI2;
          dx = cos theta;
          dy = sin theta;
          threshold = log_plus (lpFn (pt_x current) (pt_y current)) (Math_log (shd (stl g)))
      in (threshold, dx, dy,
          hitnrun_stepout_L current lpFn threshold dx dy 0 (- 1),
          hitnrun_stepout_R current lpFn threshold dx dy 0 1,
          stl (stl g)))"

text \<open>For the elliptical kernel the source is the one left by its two \<open>randn\<close> calls.\<close>

definition elliptical_bracket ::
  "Point \<Rightarrow> (real \<Rightarrow> real \<Rightarrow> real) \<Rightarrow> rng \<Rightarrow> logval \<times> real \<times> real \<times> real \<times> rng" where
  "elliptical_bracket current lpFn g2 =
     (let threshold = log_plus (lpFn (pt_x current) (pt_y current)) (Math_log (shd g2));
          theta = shd (stl g2) * PI2
      in (threshold, theta, theta - PI2, theta, stl (stl g2)))"

text \<open>The Box-Muller transform of two uniform draws, the standard normal variate that
  \<open>randn\<close> is meant to return; and a random source that starts with \<open>k\<close> draws equal to
  \<open>0\<close>, then gives \<open>u\<close>, then continues as \<open>g\<close>.\<close>

definition box_muller :: "real \<Rightarrow> real \<Rightarrow> real" where
  "box_muller u v = sqrt (- 2 * ln u) * cos (2 * pi * v)"

definition zeros_then :: "nat \<Rightarrow> real \<Rightarrow> rng \<Rightarrow> rng" where
  "zeros_then k u g = replicate k 0 @- (u ## g)"

text \<open>Shrink-sampling along a line, as the specification words it: each rejected draw
  \<open>dist ~ U(L, R)\<close> replaces the bracket side it fell on (\<open>dist < 0\<close> replaces \<open>L\<close>, otherwise
  \<open>R\<close>). \<open>shrunk_bracket L R g n\<close> is the bracket after \<open>n\<close> rejected draws and
  \<open>line_candidate\<close> the point the next draw proposes.\<close>

fun shrunk_bracket :: "real \<Rightarrow> real \<Rightarrow> rng \<Rightarrow> nat \<Rightarrow> real \<times> real" where
  "shrunk_bracket L R g 0 = (L, R)"
| "shrunk_bracket L R g (Suc n) =
     (if shd g * (R - L) + L < 0
      then shrunk_bracket (shd g * (R - L) + L) R (stl g) n
      else shrunk_bracket L (shd g * (R - L) + L) (stl g) n)"

definition line_candidate ::
  "Point \<Rightarrow> real \<Rightarrow> real \<Rightarrow> real \<Rightarrow> real \<Rightarrow> rng \<Rightarrow> nat \<Rightarrow> Point" where
  "line_candidate current dx dy L R g n =
     (case shrunk_bracket L R g n of (L', R') \<Rightarrow>
        \<lparr>pt_x = pt_x current + (shd (sdrop n g) * (R' - L') + L') * dx,
         pt_y = pt_y current + (shd (sdrop n g) * (R' - L') + L') * dy\<rparr>)"

text \<open>The same for the angle bracket of the elliptical kernel: a rejected angle replaces
  the bracket side it lies on (\<open>theta < 0\<close> replaces the lower end, otherwise the upper end)
  and the next angle is drawn from the new bracket. \<open>shrunk_angle\<close> gives angle and bracket
  after \<open>n\<close> rejections, \<open>ellipse_candidate\<close> the point that angle proposes.\<close>

fun shrunk_angle :: "real \<Rightarrow> real \<Rightarrow> real \<Rightarrow> rng \<Rightarrow> nat \<Rightarrow> real \<times> real \<times> real" where
  "shrunk_angle theta lo hi g 0 = (theta, lo, hi)"
| "shrunk_angle theta lo hi g (Suc n) =
     (let lo' = (if theta < 0 then theta else lo);
          hi' = (if theta < 0 then hi else theta)
      in shrunk_angle (shd g * (hi' - lo') + lo') lo' hi' (stl g) n)"

definition ellipse_candidate ::
  "Point \<Rightarrow> real \<Rightarrow> real \<Rightarrow> real \<Rightarrow> real \<Rightarrow> real \<Rightarrow> rng \<Rightarrow> nat \<Rightarrow> Point" where
  "ellipse_candidate current nuX nuY theta lo hi g n =
     (case shrunk_angle theta lo hi g n of (th, lo', hi') \<Rightarrow>
        \<lparr>pt_x = pt_x current * cos th + nuX * sin th,
         pt_y = pt_y current * cos th + nuY * sin th\<rparr>)"

definition lp_at :: "(real \<Rightarrow> real \<Rightarrow> real) \<Rightarrow> Point \<Rightarrow> real" where
  "lp_at lpFn q = lpFn (pt_x q) (pt_y q)"

text \<open>\<open>kernel_run algo target params st g tr\<close>: the list \<open>tr\<close> holds, in order, what the
  selected kernel returns (result and remaining random source) when it is called from the
  position of \<open>st\<close> on the source \<open>g\<close>, then from the position its result was stored at, and
  so on.\<close>

fun kernel_run ::
  "AlgoType \<Rightarrow> TargetType \<Rightarrow> Params \<Rightarrow> StateRef \<Rightarrow> rng \<Rightarrow> (Proposal \<times> rng) list \<Rightarrow> bool" where
  "kernel_run algo target params st g [] = True"
| "kernel_run algo target params st g ((result, g') # tr) =
     (kernel_step algo params \<lparr>pt_x = st_x st, pt_y = st_y st\<rparr>
        (LOG_PROBS target) (GRADIENTS target) g = Some (result, g')
      \<and> kernel_run algo target params (store_result st result) g' tr)"

text \<open>The recursive equations of the loops are applied one step at a time.\<close>

declare slice_stepout_L.simps [simp del] slice_stepout_R.simps [simp del]
declare slice_shrink.simps [simp del] elliptical_shrink.simps [simp del]
declare hitnrun_stepout_L.simps [simp del] hitnrun_stepout_R.simps [simp del]
declare hitnrun_shrink.simps [simp del] hmc_loop.simps [simp del] animate_loop.simps [simp del]

section \<open>Densities and gradients: properties\<close>

lemma bimodal_arg_pos: "0 < exp a + exp b + (1 / 10 ^ 9 :: real)"
  by (intro add_pos_pos) simp_all

lemma sqrt_sum_deriv:
  fixes x c :: real
  assumes "0 < x * x + c"
  shows "DERIV (\<lambda>x'. sqrt (x' * x' + c)) x :> x / sqrt (x * x + c)"
proof -
  have inner: "DERIV (\<lambda>x'. x' * x' + c) x :> x + x"
    by (auto intro!: derivative_eq_intros)
  have "DERIV (\<lambda>x'. sqrt (x' * x' + c)) x :> inverse (sqrt (x * x + c)) / 2 * (x + x)"
    using DERIV_chain2[where f = sqrt and g = "\<lambda>x'. x' * x' + c",
        OF DERIV_real_sqrt[OF assms] inner] .
  then show ?thesis by (simp add: field_simps)
qed

lemma ring_deriv:
  fixes r :: "real \<Rightarrow> real"
  assumes "DERIV r x :> r'"
  shows "DERIV (\<lambda>x'. - 2 * ((r x' - 2.5) ^ 2)) x :> - 4 * (r x - 2.5) * r'"
  by (auto intro!: derivative_eq_intros assms simp: algebra_simps)

lemma off_origin: "x \<noteq> 0 \<or> y \<noteq> 0 \<Longrightarrow> 0 < x * x + y * (y::real)"
  by (metis add_pos_nonneg add_nonneg_pos not_real_square_gt_zero zero_le_square)

lemma donut_dx_exact:
  assumes "x \<noteq> 0 \<or> y \<noteq> 0"
  shows "DERIV (\<lambda>x'. LOG_PROBS donut x' y) x
           :> - 4 * (sqrt (x * x + y * y) - 2.5) * (x / sqrt (x * x + y * y))"
  unfolding LOG_PROBS.simps Let_def
  by (rule ring_deriv[where r = "\<lambda>x'. sqrt (x' * x' + y * y)"])
     (rule sqrt_sum_deriv[OF off_origin[OF assms]])

lemma donut_dy_exact:
  assumes "x \<noteq> 0 \<or> y \<noteq> 0"
  shows "DERIV (\<lambda>y'. LOG_PROBS donut x y') y
           :> - 4 * (sqrt (x * x + y * y) - 2.5) * (y / sqrt (x * x + y * y))"
proof -
  have pos: "0 < y * y + x * x"
    using off_origin[OF assms] by (simp add: add.commute)
  have "DERIV (\<lambda>y'. - 2 * ((sqrt (y' * y' + x * x) - 2.5) ^ 2)) y
          :> - 4 * (sqrt (y * y + x * x) - 2.5) * (y / sqrt (y * y + x * x))"
    by (rule ring_deriv[where r = "\<lambda>y'. sqrt (y' * y' + x * x)"]) (rule sqrt_sum_deriv[OF pos])
  then show ?thesis
    by (simp add: Let_def add.commute)
qed

lemma gaussian_exact:
  "DERIV (\<lambda>x'. LOG_PROBS gaussian x' y) x :> grad_dx (GRADIENTS gaussian x y)"
  "DERIV (\<lambda>y'. LOG_PROBS gaussian x y') y :> grad_dy (GRADIENTS gaussian x y)"
  by (auto intro!: derivative_eq_intros)

lemma banana_exact:
  "DERIV (\<lambda>x'. LOG_PROBS banana x' y) x :> grad_dx (GRADIENTS banana x y)"
  "DERIV (\<lambda>y'. LOG_PROBS banana x y') y :> grad_dy (GRADIENTS banana x y)"
  by (auto intro!: derivative_eq_intros simp: Let_def field_simps)

lemma bimodal_exact:
  "DERIV (\<lambda>x'. LOG_PROBS bimodal x' y) x :> grad_dx (GRADIENTS bimodal x y)"
  "DERIV (\<lambda>y'. LOG_PROBS bimodal x y') y :> grad_dy (GRADIENTS bimodal x y)"
  unfolding LOG_PROBS.simps GRADIENTS.simps Let_def Gradient.simps
  by ((rule derivative_eq_intros refl bimodal_arg_pos)+, simp add: field_simps)+

text \<open>
  C7, as amended. For \<open>gaussian\<close>, \<open>bimodal\<close> and \<open>banana\<close> the supplied gradient is the exact
  gradient of the log-density at every point: both partial derivatives exist and equal the
  two components (the \<open>1e-9\<close> of \<open>bimodal\<close> sits in the density and in the gradient alike).
  For \<open>donut\<close> the supplied gradient is \<open>-4 (r' - 2.5) (x / r', y / r')\<close> with the guarded
  radius \<open>r' = sqrt (x\<^sup>2 + y\<^sup>2) + 1e-9\<close>, whereas away from the origin the exact gradient of
  the log-density is the same expression with the unguarded \<open>r = sqrt (x\<^sup>2 + y\<^sup>2)\<close>.
\<close>

theorem gradients_analytic:
  "(\<forall>t \<in> {gaussian, bimodal, banana}.
      DERIV (\<lambda>x'. LOG_PROBS t x' y) x :> grad_dx (GRADIENTS t x y)
      \<and> DERIV (\<lambda>y'. LOG_PROBS t x y') y :> grad_dy (GRADIENTS t x y))
   \<and> (let r = sqrt (x * x + y * y); r' = r + 1 / 10 ^ 9 in
        GRADIENTS donut x y
          = \<lparr>grad_dx = - 4 * (r' - 2.5) * (x / r'), grad_dy = - 4 * (r' - 2.5) * (y / r')\<rparr>
        \<and> (x \<noteq> 0 \<or> y \<noteq> 0 \<longrightarrow>
             DERIV (\<lambda>x'. LOG_PROBS donut x' y) x :> - 4 * (r - 2.5) * (x / r)
             \<and> DERIV (\<lambda>y'. LOG_PROBS donut x y') y :> - 4 * (r - 2.5) * (y / r)))"
proof -
  have exact3: "\<forall>t \<in> {gaussian, bimodal, banana}.
      DERIV (\<lambda>x'. LOG_PROBS t x' y) x :> grad_dx (GRADIENTS t x y)
      \<and> DERIV (\<lambda>y'. LOG_PROBS t x y') y :> grad_dy (GRADIENTS t x y)"
    by (auto simp del: LOG_PROBS.simps GRADIENTS.simps
          intro: gaussian_exact banana_exact bimodal_exact)
  have code: "GRADIENTS donut x y
      = \<lparr>grad_dx = - 4 * (sqrt (x * x + y * y) + 1 / 10 ^ 9 - 2.5)
                      * (x / (sqrt (x * x + y * y) + 1 / 10 ^ 9)),
         grad_dy = - 4 * (sqrt (x * x + y * y) + 1 / 10 ^ 9 - 2.5)
                      * (y / (sqrt (x * x + y * y) + 1 / 10 ^ 9))\<rparr>"
    by (simp add: Let_def)
  have ring: "x \<noteq> 0 \<or> y \<noteq> 0 \<longrightarrow>
      DERIV (\<lambda>x'. LOG_PROBS donut x' y) x
        :> - 4 * (sqrt (x * x + y * y) - 2.5) * (x / sqrt (x * x + y * y))
      \<and> DERIV (\<lambda>y'. LOG_PROBS donut x y') y
        :> - 4 * (sqrt (x * x + y * y) - 2.5) * (y / sqrt (x * x + y * y))"
    using donut_dx_exact donut_dy_exact by blast
  show ?thesis
    unfolding Let_def by (rule conjI[OF exact3 conjI[OF code ring]])
qed

theorem gradients_analytic_witness:
  "DERIV (\<lambda>x'. LOG_PROBS banana x' 0) 1 :> grad_dx (GRADIENTS banana 1 0)
   \<and> DERIV (\<lambda>y'. LOG_PROBS bimodal 1 y') 0 :> grad_dy (GRADIENTS bimodal 1 0)
   \<and> DERIV (\<lambda>x'. LOG_PROBS donut x' 0) 1
        :> - 4 * (sqrt (1 * 1 + 0 * 0) - 2.5) * (1 / sqrt (1 * 1 + 0 * 0))"
proof -
  have h: "(1::real) \<noteq> 0 \<or> (0::real) \<noteq> 0" by simp
  have b: "banana \<in> {gaussian, bimodal, banana}" "bimodal \<in> {gaussian, bimodal, banana}"
    by simp_all
  from gradients_analytic[where x = 1 and y = 0, unfolded Let_def] h b
  show ?thesis by blast
qed

text \<open>
  C7 as stated fails for \<open>donut\<close>: at \<open>(1, 0)\<close> the log-density has partial derivative \<open>6\<close>
  in \<open>x\<close>, and the supplied gradient returns \<open>(6 - 4e-9) / (1 + 1e-9)\<close>.
\<close>

theorem donut_gradient_not_exact:
  "\<not> DERIV (\<lambda>x'. LOG_PROBS donut x' 0) 1 :> grad_dx (GRADIENTS donut 1 0)"
proof
  assume a: "DERIV (\<lambda>x'. LOG_PROBS donut x' 0) 1 :> grad_dx (GRADIENTS donut 1 0)"
  have "DERIV (\<lambda>x'. LOG_PROBS donut x' 0) 1
          :> - 4 * (sqrt (1 * 1 + 0 * 0) - 2.5) * (1 / sqrt (1 * 1 + 0 * 0))"
    by (rule donut_dx_exact) simp
  then have "DERIV (\<lambda>x'. LOG_PROBS donut x' 0) 1 :> 6" by simp
  from DERIV_unique[OF a this] show False
    by (simp add: Let_def field_simps)
qed

text \<open>
  C8, as amended. At every point: \<open>gaussian\<close> is \<open>-0.5 (x\<^sup>2 + y\<^sup>2)\<close>; \<open>donut\<close> is
  \<open>-2 (r - 2.5)\<^sup>2\<close> with \<open>r = sqrt (x\<^sup>2 + y\<^sup>2)\<close>; \<open>banana\<close> is
  \<open>-((1 - x)\<^sup>2 + 5 (y - x\<^sup>2)\<^sup>2) / 10\<close>; and \<open>bimodal\<close> is the logarithm of the sum of the
  two component densities centred at \<open>(-1.5, -1.5)\<close> and \<open>(1.5, 1.5)\<close> plus \<open>1e-9\<close>.
\<close>

theorem log_probs_closed_forms:
  "LOG_PROBS gaussian x y = - 0.5 * (x\<^sup>2 + y\<^sup>2)
   \<and> LOG_PROBS donut x y = - 2 * (sqrt (x\<^sup>2 + y\<^sup>2) - 2.5)\<^sup>2
   \<and> LOG_PROBS banana x y = - ((1 - x)\<^sup>2 + 5 * (y - x\<^sup>2)\<^sup>2) / 10
   \<and> LOG_PROBS bimodal x y =
       ln (exp (- 2 * ((x + 1.5)\<^sup>2 + (y + 1.5)\<^sup>2))
           + exp (- 2 * ((x - 1.5)\<^sup>2 + (y - 1.5)\<^sup>2)) + 1 / 10 ^ 9)"
  by (simp add: power2_eq_square Let_def mult.commute)

text \<open>
  C8 as stated fails for \<open>bimodal\<close>: at the origin the code returns
  \<open>ln (2 exp (-9) + 1e-9)\<close>, not the logarithm \<open>ln (2 exp (-9))\<close> of the sum of the two
  component densities.
\<close>

theorem bimodal_not_log_of_sum:
  "LOG_PROBS bimodal 0 0
     \<noteq> ln (exp (- 2 * ((0 + 1.5)\<^sup>2 + (0 + 1.5)\<^sup>2)) + exp (- 2 * ((0 - 1.5)\<^sup>2 + (0 - 1.5)\<^sup>2)))"
proof -
  have "2 * exp (- 9) + 1 / 1000000000 \<noteq> 2 * exp (- 9 :: real)" by simp
  moreover have "0 < 2 * exp (- 9 :: real)" by simp
  moreover have "0 < 2 * exp (- 9) + 1 / (1000000000 :: real)" by (simp add: add_pos_pos)
  ultimately have "ln (2 * exp (- 9) + 1 / 1000000000) \<noteq> ln (2 * exp (- 9 :: real))"
    by simp
  then show ?thesis
    by (simp add: Let_def power2_eq_square)
qed

section \<open>The random source: properties\<close>

lemma draw_nonzero_hit: "shd g \<noteq> 0 \<Longrightarrow> draw_nonzero g = Some (shd g, stl g)"
  by (subst draw_nonzero.simps) (simp add: Math_random_def)

lemma draw_nonzero_skip: "shd g = 0 \<Longrightarrow> draw_nonzero g = draw_nonzero (stl g)"
  by (subst draw_nonzero.simps) (simp add: Math_random_def)

lemma draw_nonzero_Some_nonzero:
  assumes "draw_nonzero g = Some r"
  shows "\<exists>n. g !! n \<noteq> 0"
proof (rule draw_nonzero.raw_induct[where P = "\<lambda>g r. \<exists>n. g !! n \<noteq> 0", OF _ assms])
  fix f :: "rng \<Rightarrow> (real \<times> rng) option" and g r
  assume IH: "\<And>x y. f x = Some y \<Longrightarrow> \<exists>n. x !! n \<noteq> 0"
    and eq: "(case Math_random g of (u, g') \<Rightarrow> if u = 0 then f g' else Some (u, g')) = Some r"
  show "\<exists>n. g !! n \<noteq> 0"
  proof (cases "shd g = 0")
    case True
    with eq have "f (stl g) = Some r" by (simp add: Math_random_def)
    from IH[OF this] obtain n where "stl g !! n \<noteq> 0" by blast
    then have "g !! Suc n \<noteq> 0" by simp
    then show ?thesis by blast
  next
    case False
    then have "g !! 0 \<noteq> 0" by simp
    then show ?thesis by blast
  qed
qed

lemma draw_nonzero_zeros: "draw_nonzero (sconst 0) = None"
proof (cases "draw_nonzero (sconst 0)")
  case None then show ?thesis .
next
  case (Some r)
  from draw_nonzero_Some_nonzero[OF this] show ?thesis by simp
qed

lemma draw_nonzero_total: "g !! n \<noteq> 0 \<Longrightarrow> \<exists>r. draw_nonzero g = Some r"
proof (induction n arbitrary: g)
  case 0
  then show ?case by (simp add: draw_nonzero_hit)
next
  case (Suc n)
  show ?case
  proof (cases "shd g = 0")
    case True
    from Suc.prems have "stl g !! n \<noteq> 0" by simp
    from Suc.IH[OF this] show ?thesis by (simp add: draw_nonzero_skip[OF True])
  next
    case False
    then show ?thesis by (simp add: draw_nonzero_hit)
  qed
qed

lemma randn_quarter:
  "u \<noteq> 0 \<Longrightarrow> randn (u ## 1/4 ## g) = Some (0, g)"
  by (simp add: randn_def draw_nonzero_hit)

lemma randn_zeros: "randn (sconst 0) = None"
  by (simp add: randn_def draw_nonzero_zeros)

lemma accept_interval:
  "{u \<in> {0..<1}. log_less (Math_log u) d} = {0 ..< min 1 (exp d)}"
proof -
  have "log_less (Math_log u) d \<longleftrightarrow> u < exp d" if "0 \<le> u" "u < 1" for u
  proof (cases "u = 0")
    case True then show ?thesis by (simp add: Math_log_def)
  next
    case False
    with that have "0 < u" by simp
    from ln_ge_iff[OF this, of d] show ?thesis
      by (auto simp: Math_log_def False) 
  qed
  then show ?thesis by auto
qed

text \<open>\<open>randn\<close> on a source of the shape described by \<open>zeros_then\<close>: the zeros are
  skipped and the value is the Box-Muller transform of the two non-zero draws.\<close>

lemma draw_nonzero_zeros_then:
  "u \<noteq> 0 \<Longrightarrow> draw_nonzero (zeros_then k u g) = Some (u, g)"
proof (induction k)
  case 0
  then show ?case by (simp add: zeros_then_def draw_nonzero_hit)
next
  case (Suc k)
  have "draw_nonzero (zeros_then (Suc k) u g) = draw_nonzero (zeros_then k u g)"
    by (subst draw_nonzero_skip) (simp_all add: zeros_then_def)
  with Suc show ?case by simp
qed

lemma randn_box_muller:
  "u \<noteq> 0 \<Longrightarrow> v \<noteq> 0 \<Longrightarrow>
     randn (zeros_then j u (zeros_then k v g)) = Some (box_muller u v, g)"
  by (simp add: randn_def draw_nonzero_zeros_then box_muller_def)

lemma box_muller_minus_one: "box_muller (exp (- (1 / 2))) (1 / 2) = - 1"
  by (simp add: box_muller_def)

text \<open>\<open>randn\<close> returns, after finitely many draws, on every source in which non-zero draws
  keep occurring.\<close>

lemma draw_nonzero_returns:
  "g !! m \<noteq> 0 \<Longrightarrow> \<exists>u j. draw_nonzero g = Some (u, sdrop j g)"
proof (induction m arbitrary: g)
  case 0
  then have "draw_nonzero g = Some (shd g, sdrop (Suc 0) g)"
    by (simp add: draw_nonzero_hit)
  then show ?case by blast
next
  case (Suc m)
  show ?case
  proof (cases "shd g = 0")
    case True
    from Suc.prems have "stl g !! m \<noteq> 0" by simp
    from Suc.IH[OF this] obtain u j where "draw_nonzero (stl g) = Some (u, sdrop j (stl g))"
      by blast
    then have "draw_nonzero g = Some (u, sdrop (Suc j) g)"
      by (simp add: draw_nonzero_skip[OF True])
    then show ?thesis by blast
  next
    case False
    then have "draw_nonzero g = Some (shd g, sdrop (Suc 0) g)"
      by (simp add: draw_nonzero_hit)
    then show ?thesis by blast
  qed
qed

lemma recurs_sdrop:
  "\<forall>n. \<exists>m. g !! (n + m) \<noteq> 0 \<Longrightarrow> \<forall>n. \<exists>m. sdrop j g !! (n + m) \<noteq> (0::real)"
proof
  fix n
  assume "\<forall>n. \<exists>m. g !! (n + m) \<noteq> 0"
  then obtain m where "g !! (j + n + m) \<noteq> 0" by blast
  then have "sdrop j g !! (n + m) \<noteq> 0" by (simp add: sdrop_snth add.assoc)
  then show "\<exists>m. sdrop j g !! (n + m) \<noteq> 0" by blast
qed

lemma randn_returns:
  assumes "\<forall>n. \<exists>m. g !! (n + m) \<noteq> 0"
  shows "\<exists>x j. randn g = Some (x, sdrop j g)"
proof -
  from assms obtain m where "g !! m \<noteq> 0" by (metis add_0)
  from draw_nonzero_returns[OF this] obtain u j where u: "draw_nonzero g = Some (u, sdrop j g)"
    by blast
  from recurs_sdrop[OF assms, of j] obtain m' where "sdrop j g !! m' \<noteq> 0" by (metis add_0)
  from draw_nonzero_returns[OF this] obtain v j'
    where v: "draw_nonzero (sdrop j g) = Some (v, sdrop (j + j') g)"
    by auto
  from u v show ?thesis by (auto simp: randn_def)
qed

lemma two_randn_return:
  assumes "\<forall>n. \<exists>m. g !! (n + m) \<noteq> 0"
  shows "\<exists>x y g1 j. randn g = Some (x, g1) \<and> randn g1 = Some (y, sdrop j g)"
proof -
  from randn_returns[OF assms] obtain x j where x: "randn g = Some (x, sdrop j g)" by blast
  from randn_returns[OF recurs_sdrop[OF assms, of j]] obtain y j'
    where "randn (sdrop j g) = Some (y, sdrop (j + j') g)" by auto
  with x show ?thesis by blast
qed

section \<open>Random-walk Metropolis and independent Metropolis-Hastings\<close>

lemma Math_random_simp: "Math_random g = (shd g, stl g)"
  by (simp add: Math_random_def)

text \<open>
  C1. Let the random source hold any number of zeros, then \<open>u\<^sub>1 \<noteq> 0\<close>, any number of zeros,
  then \<open>v\<^sub>1 \<noteq> 0\<close>, and in the same way \<open>u\<^sub>2\<close>, \<open>v\<^sub>2\<close>, followed by the source \<open>g2\<close>. The
  random-walk kernel skips the zeros, takes as its normal draws the Box-Muller values
  \<open>n\<^sub>i = sqrt (- 2 ln u\<^sub>i) cos (2 pi v\<^sub>i)\<close>, proposes \<open>x' = x + stepSize n\<^sub>1\<close>,
  \<open>y' = y + stepSize n\<^sub>2\<close>, takes the next draw \<open>u\<close> (the head of \<open>g2\<close>) and accepts exactly
  when \<open>log u < lpFn (x', y') - lpFn (x, y)\<close>; on rejection it returns the current point with
  \<open>accepted = false\<close>. The uniform draws in \<open>[0, 1)\<close> that accept are exactly the interval
  \<open>[0, min 1 (exp delta))\<close> with \<open>delta = lpFn (x', y') - lpFn (x, y)\<close>: its length, the
  acceptance probability under a uniform draw, is \<open>min 1 (exp delta)\<close> and depends on the
  proposal through \<open>delta\<close> only.
\<close>

theorem stepRWM_accepts_on_ratio:
  assumes "u1 \<noteq> 0" and "v1 \<noteq> 0" and "u2 \<noteq> 0" and "v2 \<noteq> 0"
    and "g = zeros_then k1 u1 (zeros_then k2 v1 (zeros_then k3 u2 (zeros_then k4 v2 g2)))"
  shows "let n1 = box_muller u1 v1;
             n2 = box_muller u2 v2;
             xNew = pt_x current + stepSize params * n1;
             yNew = pt_y current + stepSize params * n2;
             delta = lpFn xNew yNew - lpFn (pt_x current) (pt_y current);
             u = shd g2
         in stepRWM params current lpFn g =
              Some (if log_less (Math_log u) delta
                    then \<lparr>pt_x = xNew, pt_y = yNew, accepted = True, path = None\<rparr>
                    else \<lparr>pt_x = pt_x current, pt_y = pt_y current, accepted = False, path = None\<rparr>,
                    stl g2)
            \<and> {v \<in> {0..<1}. log_less (Math_log v) delta} = {0 ..< min 1 (exp delta)}"
  unfolding Let_def
proof (intro conjI)
  have r1: "randn g = Some (box_muller u1 v1, zeros_then k3 u2 (zeros_then k4 v2 g2))"
    unfolding assms(5) by (rule randn_box_muller[OF assms(1,2)])
  have r2: "randn (zeros_then k3 u2 (zeros_then k4 v2 g2)) = Some (box_muller u2 v2, g2)"
    by (rule randn_box_muller[OF assms(3,4)])
  show "stepRWM params current lpFn g =
      Some (if log_less (Math_log (shd g2))
                 (lpFn (pt_x current + stepSize params * box_muller u1 v1)
                       (pt_y current + stepSize params * box_muller u2 v2)
                    - lpFn (pt_x current) (pt_y current))
            then \<lparr>pt_x = pt_x current + stepSize params * box_muller u1 v1,
                    pt_y = pt_y current + stepSize params * box_muller u2 v2,
                    accepted = True, path = None\<rparr>
            else \<lparr>pt_x = pt_x current, pt_y = pt_y current, accepted = False, path = None\<rparr>,
            stl g2)"
    using r1 r2
    by (simp add: stepRWM_def Let_def Math_random_simp rejected_def mult.commute)
qed (rule accept_interval)

theorem stepRWM_accepts_on_ratio_witness:
  "stepRWM \<lparr>stepSize = 0.5, stepsPerFrame = 1, hmcSteps = 10, hmcEpsilon = 0.1\<rparr>
      \<lparr>pt_x = 0.1, pt_y = 0.1\<rparr> (LOG_PROBS gaussian)
      (0 ## exp (- (1 / 2)) ## 1 / 2 ## exp (- (1 / 2)) ## 0 ## 0 ## 1 / 2 ## exp (- 2) ## sconst 0)
   = Some (\<lparr>pt_x = - 0.4, pt_y = - 0.4, accepted = True, path = None\<rparr>, sconst 0)"
proof -
  have nz: "exp (- (1 / 2) :: real) \<noteq> 0" "(1 / 2 :: real) \<noteq> 0" by simp_all
  have g: "0 ## exp (- (1 / 2)) ## 1 / 2 ## exp (- (1 / 2)) ## 0 ## 0 ## 1 / 2 ## exp (- 2) ## sconst 0
      = zeros_then 1 (exp (- (1 / 2))) (zeros_then 0 (1 / 2) (zeros_then 0 (exp (- (1 / 2)))
          (zeros_then 2 (1 / 2) (exp (- 2) ## sconst (0::real)))))"
    by (simp add: zeros_then_def numeral_2_eq_2)
  show ?thesis
    using stepRWM_accepts_on_ratio[OF nz nz g, of "\<lparr>pt_x = 0.1, pt_y = 0.1\<rparr>"
        "\<lparr>stepSize = 0.5, stepsPerFrame = 1, hmcSteps = 10, hmcEpsilon = 0.1\<rparr>" "LOG_PROBS gaussian"]
    by (simp add: Let_def Math_log_def box_muller_minus_one)
qed




section \<open>Slice-family loops: bounds and outcomes\<close>

lemma rand_simp: "rand lo hi g = (shd g * (hi - lo) + lo, stl g)"
  by (simp add: rand_def Math_random_def)

lemma sdrop_le_step: "n \<le> c - Suc l \<Longrightarrow> l < c \<Longrightarrow> \<exists>m \<le> c - l. sdrop n (stl g) = sdrop m g"
  by (rule exI[of _ "Suc n"]) auto

lemma slice_stepout_L_bound:
  "\<exists>n \<le> 100 - loop. slice_stepout_L params current lpFn thr dx dy loop L = L - real n * stepSize params"
proof (induction params current lpFn thr dx dy loop L rule: slice_stepout_L.induct)
  case (1 params current lpFn thr dx dy loop L)
  show ?case
  proof (cases "loop < 100 \<and> exceeds (lpFn (pt_x current + L * dx) (pt_y current + L * dy)) thr")
    case True
    from 1[OF True] obtain n where n: "n \<le> 100 - (loop + 1)"
      and eq: "slice_stepout_L params current lpFn thr dx dy (loop + 1) (L - stepSize params)
               = L - stepSize params - real n * stepSize params" by blast
    have "slice_stepout_L params current lpFn thr dx dy loop L = L - real (Suc n) * stepSize params"
      using True eq by (subst slice_stepout_L.simps) (simp add: algebra_simps)
    moreover have "Suc n \<le> 100 - loop" using n True by linarith
    ultimately show ?thesis by blast
  next
    case False
    then have "slice_stepout_L params current lpFn thr dx dy loop L = L - real 0 * stepSize params"
      by (subst slice_stepout_L.simps) auto
    then show ?thesis by blast
  qed
qed

lemma slice_stepout_R_bound:
  "\<exists>n \<le> 100 - loop. slice_stepout_R params current lpFn thr dx dy loop R = R + real n * stepSize params"
proof (induction params current lpFn thr dx dy loop R rule: slice_stepout_R.induct)
  case (1 params current lpFn thr dx dy loop R)
  show ?case
  proof (cases "loop < 100 \<and> exceeds (lpFn (pt_x current + R * dx) (pt_y current + R * dy)) thr")
    case True
    from 1[OF True] obtain n where n: "n \<le> 100 - (loop + 1)"
      and eq: "slice_stepout_R params current lpFn thr dx dy (loop + 1) (R + stepSize params)
               = R + stepSize params + real n * stepSize params" by blast
    have "slice_stepout_R params current lpFn thr dx dy loop R = R + real (Suc n) * stepSize params"
      using True eq by (subst slice_stepout_R.simps) (simp add: algebra_simps)
    moreover have "Suc n \<le> 100 - loop" using n True by linarith
    ultimately show ?thesis by blast
  next
    case False
    then have "slice_stepout_R params current lpFn thr dx dy loop R = R + real 0 * stepSize params"
      by (subst slice_stepout_R.simps) auto
    then show ?thesis by blast
  qed
qed

lemma hitnrun_stepout_L_bound:
  "\<exists>n \<le> 20 - loop. hitnrun_stepout_L current lpFn thr dx dy loop L = L * 2 ^ n"
proof (induction current lpFn thr dx dy loop L rule: hitnrun_stepout_L.induct)
  case (1 current lpFn thr dx dy loop L)
  show ?case
  proof (cases "loop < 20 \<and> exceeds (lpFn (pt_x current + L * dx) (pt_y current + L * dy)) thr")
    case True
    from 1[OF True] obtain n where n: "n \<le> 20 - (loop + 1)"
      and eq: "hitnrun_stepout_L current lpFn thr dx dy (loop + 1) (L * 2) = L * 2 * 2 ^ n" by blast
    have "hitnrun_stepout_L current lpFn thr dx dy loop L = L * 2 ^ Suc n"
      using True eq by (subst hitnrun_stepout_L.simps) simp
    moreover have "Suc n \<le> 20 - loop" using n True by linarith
    ultimately show ?thesis by blast
  next
    case False
    then have "hitnrun_stepout_L current lpFn thr dx dy loop L = L * 2 ^ 0"
      by (subst hitnrun_stepout_L.simps) auto
    then show ?thesis by blast
  qed
qed

lemma hitnrun_stepout_R_bound:
  "\<exists>n \<le> 20 - loop. hitnrun_stepout_R current lpFn thr dx dy loop R = R * 2 ^ n"
proof (induction current lpFn thr dx dy loop R rule: hitnrun_stepout_R.induct)
  case (1 current lpFn thr dx dy loop R)
  show ?case
  proof (cases "loop < 20 \<and> exceeds (lpFn (pt_x current + R * dx) (pt_y current + R * dy)) thr")
    case True
    from 1[OF True] obtain n where n: "n \<le> 20 - (loop + 1)"
      and eq: "hitnrun_stepout_R current lpFn thr dx dy (loop + 1) (R * 2) = R * 2 * 2 ^ n" by blast
    have "hitnrun_stepout_R current lpFn thr dx dy loop R = R * 2 ^ Suc n"
      using True eq by (subst hitnrun_stepout_R.simps) simp
    moreover have "Suc n \<le> 20 - loop" using n True by linarith
    ultimately show ?thesis by blast
  next
    case False
    then have "hitnrun_stepout_R current lpFn thr dx dy loop R = R * 2 ^ 0"
      by (subst hitnrun_stepout_R.simps) auto
    then show ?thesis by blast
  qed
qed

lemma slice_shrink_draws:
  "\<exists>n \<le> 100 - loop. snd (slice_shrink current lpFn thr dx dy loop L R g) = sdrop n g"
proof (induction current lpFn thr dx dy loop L R g rule: slice_shrink.induct)
  case (1 current lpFn thr dx dy loop L R g)
  let ?dist = "shd g * (R - L) + L"
  show ?case
  proof (cases "loop < 100")
    case False
    then have "snd (slice_shrink current lpFn thr dx dy loop L R g) = sdrop 0 g"
      by (subst slice_shrink.simps) simp
    then show ?thesis by blast
  next
    case lt: True
    consider (acc) "exceeds (lpFn (pt_x current + ?dist * dx) (pt_y current + ?dist * dy)) thr"
      | (left) "\<not> exceeds (lpFn (pt_x current + ?dist * dx) (pt_y current + ?dist * dy)) thr" "?dist < 0"
      | (right) "\<not> exceeds (lpFn (pt_x current + ?dist * dx) (pt_y current + ?dist * dy)) thr" "\<not> ?dist < 0"
      by blast
    then show ?thesis
    proof cases
      case acc
      with lt have "snd (slice_shrink current lpFn thr dx dy loop L R g) = sdrop (Suc 0) g"
        by (subst slice_shrink.simps) (simp add: rand_simp Let_def)
      moreover have "Suc 0 \<le> 100 - loop" using lt by simp
      ultimately show ?thesis by blast
    next
      case left
      have "\<exists>n \<le> 100 - (loop + 1). snd (slice_shrink current lpFn thr dx dy (loop + 1) ?dist R (stl g)) = sdrop n (stl g)"
        by (rule "1.IH"(1)[OF lt _ refl refl refl left]) (simp add: rand_simp)
      then obtain n where "n \<le> 100 - Suc loop"
        "snd (slice_shrink current lpFn thr dx dy (loop + 1) ?dist R (stl g)) = sdrop n (stl g)" by auto
      moreover have "slice_shrink current lpFn thr dx dy loop L R g
          = slice_shrink current lpFn thr dx dy (loop + 1) ?dist R (stl g)"
        using lt left by (subst slice_shrink.simps) (simp add: rand_simp Let_def)
      ultimately show ?thesis using sdrop_le_step[OF _ lt] by simp
    next
      case right
      have "\<exists>n \<le> 100 - (loop + 1). snd (slice_shrink current lpFn thr dx dy (loop + 1) L ?dist (stl g)) = sdrop n (stl g)"
        by (rule "1.IH"(2)[OF lt _ refl refl refl right]) (simp add: rand_simp)
      then obtain n where "n \<le> 100 - Suc loop"
        "snd (slice_shrink current lpFn thr dx dy (loop + 1) L ?dist (stl g)) = sdrop n (stl g)" by auto
      moreover have "slice_shrink current lpFn thr dx dy loop L R g
          = slice_shrink current lpFn thr dx dy (loop + 1) L ?dist (stl g)"
        using lt right by (subst slice_shrink.simps) (simp add: rand_simp Let_def)
      ultimately show ?thesis using sdrop_le_step[OF _ lt] by simp
    qed
  qed
qed

lemma hitnrun_shrink_draws:
  "\<exists>n \<le> 50 - loop. snd (hitnrun_shrink current lpFn thr dx dy loop L R g) = sdrop n g"
proof (induction current lpFn thr dx dy loop L R g rule: hitnrun_shrink.induct)
  case (1 current lpFn thr dx dy loop L R g)
  let ?dist = "shd g * (R - L) + L"
  show ?case
  proof (cases "loop < 50")
    case False
    then have "snd (hitnrun_shrink current lpFn thr dx dy loop L R g) = sdrop 0 g"
      by (subst hitnrun_shrink.simps) simp
    then show ?thesis by blast
  next
    case lt: True
    consider (acc) "exceeds (lpFn (pt_x current + ?dist * dx) (pt_y current + ?dist * dy)) thr"
      | (left) "\<not> exceeds (lpFn (pt_x current + ?dist * dx) (pt_y current + ?dist * dy)) thr" "?dist < 0"
      | (right) "\<not> exceeds (lpFn (pt_x current + ?dist * dx) (pt_y current + ?dist * dy)) thr" "\<not> ?dist < 0"
      by blast
    then show ?thesis
    proof cases
      case acc
      with lt have "snd (hitnrun_shrink current lpFn thr dx dy loop L R g) = sdrop (Suc 0) g"
        by (subst hitnrun_shrink.simps) (simp add: rand_simp Let_def)
      moreover have "Suc 0 \<le> 50 - loop" using lt by simp
      ultimately show ?thesis by blast
    next
      case left
      have "\<exists>n \<le> 50 - (loop + 1). snd (hitnrun_shrink current lpFn thr dx dy (loop + 1) ?dist R (stl g)) = sdrop n (stl g)"
        by (rule "1.IH"(1)[OF lt _ refl refl refl left]) (simp add: rand_simp)
      then obtain n where "n \<le> 50 - Suc loop"
        "snd (hitnrun_shrink current lpFn thr dx dy (loop + 1) ?dist R (stl g)) = sdrop n (stl g)" by auto
      moreover have "hitnrun_shrink current lpFn thr dx dy loop L R g
          = hitnrun_shrink current lpFn thr dx dy (loop + 1) ?dist R (stl g)"
        using lt left by (subst hitnrun_shrink.simps) (simp add: rand_simp Let_def)
      ultimately show ?thesis using sdrop_le_step[OF _ lt] by simp
    next
      case right
      have "\<exists>n \<le> 50 - (loop + 1). snd (hitnrun_shrink current lpFn thr dx dy (loop + 1) L ?dist (stl g)) = sdrop n (stl g)"
        by (rule "1.IH"(2)[OF lt _ refl refl refl right]) (simp add: rand_simp)
      then obtain n where "n \<le> 50 - Suc loop"
        "snd (hitnrun_shrink current lpFn thr dx dy (loop + 1) L ?dist (stl g)) = sdrop n (stl g)" by auto
      moreover have "hitnrun_shrink current lpFn thr dx dy loop L R g
          = hitnrun_shrink current lpFn thr dx dy (loop + 1) L ?dist (stl g)"
        using lt right by (subst hitnrun_shrink.simps) (simp add: rand_simp Let_def)
      ultimately show ?thesis using sdrop_le_step[OF _ lt] by simp
    qed
  qed
qed

lemma elliptical_shrink_draws:
  "\<exists>n \<le> 50 - loops. snd (elliptical_shrink current lpFn thr nuX nuY loops theta thetaMin thetaMax g) = sdrop n g"
proof (induction current lpFn thr nuX nuY loops theta thetaMin thetaMax g rule: elliptical_shrink.induct)
  case (1 current lpFn thr nuX nuY loops theta thetaMin thetaMax g)
  let ?newX = "pt_x current * cos theta + nuX * sin theta"
  let ?newY = "pt_y current * cos theta + nuY * sin theta"
  let ?tmin = "if theta < 0 then theta else thetaMin"
  let ?tmax = "if theta < 0 then thetaMax else theta"
  let ?theta' = "shd g * (?tmax - ?tmin) + ?tmin"
  show ?case
  proof (cases "loops < 50")
    case False
    then have "snd (elliptical_shrink current lpFn thr nuX nuY loops theta thetaMin thetaMax g) = sdrop 0 g"
      by (subst elliptical_shrink.simps) simp
    then show ?thesis by blast
  next
    case lt: True
    show ?thesis
    proof (cases "exceeds (lpFn ?newX ?newY) thr")
      case True
      with lt have "snd (elliptical_shrink current lpFn thr nuX nuY loops theta thetaMin thetaMax g) = sdrop 0 g"
        by (subst elliptical_shrink.simps) (simp add: Let_def)
      then show ?thesis by blast
    next
      case rej: False
      have "\<exists>n \<le> 50 - (loops + 1).
          snd (elliptical_shrink current lpFn thr nuX nuY (loops + 1) ?theta' ?tmin ?tmax (stl g)) = sdrop n (stl g)"
        by (rule "1.IH"[OF lt refl refl rej refl refl]) (simp add: rand_simp)
      then obtain n where "n \<le> 50 - Suc loops"
        "snd (elliptical_shrink current lpFn thr nuX nuY (loops + 1) ?theta' ?tmin ?tmax (stl g)) = sdrop n (stl g)"
        by auto
      moreover have "elliptical_shrink current lpFn thr nuX nuY loops theta thetaMin thetaMax g
          = elliptical_shrink current lpFn thr nuX nuY (loops + 1) ?theta' ?tmin ?tmax (stl g)"
        using lt rej by (subst elliptical_shrink.simps) (simp add: rand_simp Let_def)
      ultimately show ?thesis using sdrop_le_step[OF _ lt] by simp
    qed
  qed
qed

lemma slice_shrink_Some:
  "fst (slice_shrink current lpFn thr dx dy loop L R g) = Some r \<Longrightarrow>
     accepted r \<and> exceeds (lpFn (pt_x r) (pt_y r)) thr
     \<and> (\<exists>L' R'. path r = Some [\<lparr>pt_x = pt_x current + L' * dx, pt_y = pt_y current + L' * dy\<rparr>,
                                \<lparr>pt_x = pt_x current + R' * dx, pt_y = pt_y current + R' * dy\<rparr>])"
proof (induction current lpFn thr dx dy loop L R g rule: slice_shrink.induct)
  case (1 current lpFn thr dx dy loop L R g)
  let ?dist = "shd g * (R - L) + L"
  from "1.prems" have lt: "loop < 100"
    by (subst (asm) slice_shrink.simps) (simp split: if_splits)
  consider (acc) "exceeds (lpFn (pt_x current + ?dist * dx) (pt_y current + ?dist * dy)) thr"
    | (left) "\<not> exceeds (lpFn (pt_x current + ?dist * dx) (pt_y current + ?dist * dy)) thr" "?dist < 0"
    | (right) "\<not> exceeds (lpFn (pt_x current + ?dist * dx) (pt_y current + ?dist * dy)) thr" "\<not> ?dist < 0"
    by blast
  then show ?case
  proof cases
    case acc
    with lt "1.prems" have r: "r = \<lparr>pt_x = pt_x current + ?dist * dx, pt_y = pt_y current + ?dist * dy,
          accepted = True,
          path = Some [\<lparr>pt_x = pt_x current + L * dx, pt_y = pt_y current + L * dy\<rparr>,
                       \<lparr>pt_x = pt_x current + R * dx, pt_y = pt_y current + R * dy\<rparr>]\<rparr>"
      by (subst (asm) slice_shrink.simps) (simp add: rand_simp Let_def)
    have "\<exists>L' R'. path r = Some [\<lparr>pt_x = pt_x current + L' * dx, pt_y = pt_y current + L' * dy\<rparr>,
                                \<lparr>pt_x = pt_x current + R' * dx, pt_y = pt_y current + R' * dy\<rparr>]"
      unfolding r by (intro exI[of _ L] exI[of _ R]) simp
    with acc show ?thesis by (simp add: r)
  next
    case left
    have "slice_shrink current lpFn thr dx dy loop L R g
          = slice_shrink current lpFn thr dx dy (loop + 1) ?dist R (stl g)"
      using lt left by (subst slice_shrink.simps) (simp add: rand_simp Let_def)
    with "1.prems" have "fst (slice_shrink current lpFn thr dx dy (loop + 1) ?dist R (stl g)) = Some r"
      by simp
    then show ?thesis
      by (rule "1.IH"(1)[OF lt _ refl refl refl left, rotated -1]) (simp add: rand_simp)
  next
    case right
    have "slice_shrink current lpFn thr dx dy loop L R g
          = slice_shrink current lpFn thr dx dy (loop + 1) L ?dist (stl g)"
      using lt right by (subst slice_shrink.simps) (simp add: rand_simp Let_def)
    with "1.prems" have "fst (slice_shrink current lpFn thr dx dy (loop + 1) L ?dist (stl g)) = Some r"
      by simp
    then show ?thesis
      by (rule "1.IH"(2)[OF lt _ refl refl refl right, rotated -1]) (simp add: rand_simp)
  qed
qed

lemma hitnrun_shrink_Some:
  "fst (hitnrun_shrink current lpFn thr dx dy loop L R g) = Some r \<Longrightarrow>
     accepted r \<and> exceeds (lpFn (pt_x r) (pt_y r)) thr \<and> path r = None"
proof (induction current lpFn thr dx dy loop L R g rule: hitnrun_shrink.induct)
  case (1 current lpFn thr dx dy loop L R g)
  let ?dist = "shd g * (R - L) + L"
  from "1.prems" have lt: "loop < 50"
    by (subst (asm) hitnrun_shrink.simps) (simp split: if_splits)
  consider (acc) "exceeds (lpFn (pt_x current + ?dist * dx) (pt_y current + ?dist * dy)) thr"
    | (left) "\<not> exceeds (lpFn (pt_x current + ?dist * dx) (pt_y current + ?dist * dy)) thr" "?dist < 0"
    | (right) "\<not> exceeds (lpFn (pt_x current + ?dist * dx) (pt_y current + ?dist * dy)) thr" "\<not> ?dist < 0"
    by blast
  then show ?case
  proof cases
    case acc
    with lt "1.prems" have r: "r = \<lparr>pt_x = pt_x current + ?dist * dx, pt_y = pt_y current + ?dist * dy,
          accepted = True, path = None\<rparr>"
      by (subst (asm) hitnrun_shrink.simps) (simp add: rand_simp Let_def)
    with acc show ?thesis by simp
  next
    case left
    have "hitnrun_shrink current lpFn thr dx dy loop L R g
          = hitnrun_shrink current lpFn thr dx dy (loop + 1) ?dist R (stl g)"
      using lt left by (subst hitnrun_shrink.simps) (simp add: rand_simp Let_def)
    with "1.prems" have "fst (hitnrun_shrink current lpFn thr dx dy (loop + 1) ?dist R (stl g)) = Some r"
      by simp
    then show ?thesis
      by (rule "1.IH"(1)[OF lt _ refl refl refl left, rotated -1]) (simp add: rand_simp)
  next
    case right
    have "hitnrun_shrink current lpFn thr dx dy loop L R g
          = hitnrun_shrink current lpFn thr dx dy (loop + 1) L ?dist (stl g)"
      using lt right by (subst hitnrun_shrink.simps) (simp add: rand_simp Let_def)
    with "1.prems" have "fst (hitnrun_shrink current lpFn thr dx dy (loop + 1) L ?dist (stl g)) = Some r"
      by simp
    then show ?thesis
      by (rule "1.IH"(2)[OF lt _ refl refl refl right, rotated -1]) (simp add: rand_simp)
  qed
qed

lemma elliptical_shrink_Some:
  "fst (elliptical_shrink current lpFn thr nuX nuY loops theta thetaMin thetaMax g) = Some r \<Longrightarrow>
     accepted r \<and> exceeds (lpFn (pt_x r) (pt_y r)) thr \<and> path r = None"
proof (induction current lpFn thr nuX nuY loops theta thetaMin thetaMax g rule: elliptical_shrink.induct)
  case (1 current lpFn thr nuX nuY loops theta thetaMin thetaMax g)
  let ?newX = "pt_x current * cos theta + nuX * sin theta"
  let ?newY = "pt_y current * cos theta + nuY * sin theta"
  let ?tmin = "if theta < 0 then theta else thetaMin"
  let ?tmax = "if theta < 0 then thetaMax else theta"
  let ?theta' = "shd g * (?tmax - ?tmin) + ?tmin"
  from "1.prems" have lt: "loops < 50"
    by (subst (asm) elliptical_shrink.simps) (simp split: if_splits)
  show ?case
  proof (cases "exceeds (lpFn ?newX ?newY) thr")
    case True
    with lt "1.prems" have "r = \<lparr>pt_x = ?newX, pt_y = ?newY, accepted = True, path = None\<rparr>"
      by (subst (asm) elliptical_shrink.simps) (simp add: Let_def)
    with True show ?thesis by simp
  next
    case rej: False
    have "elliptical_shrink current lpFn thr nuX nuY loops theta thetaMin thetaMax g
          = elliptical_shrink current lpFn thr nuX nuY (loops + 1) ?theta' ?tmin ?tmax (stl g)"
      using lt rej by (subst elliptical_shrink.simps) (simp add: rand_simp Let_def)
    with "1.prems"
    have "fst (elliptical_shrink current lpFn thr nuX nuY (loops + 1) ?theta' ?tmin ?tmax (stl g)) = Some r"
      by simp
    then show ?thesis
      by (rule "1.IH"[OF lt refl refl rej refl refl, rotated -1]) (simp add: rand_simp)
  qed
qed

lemma slice_shrink_None:
  "fst (slice_shrink current lpFn thr dx dy loop L R g) = None \<Longrightarrow>
     snd (slice_shrink current lpFn thr dx dy loop L R g) = sdrop (100 - loop) g"
proof (induction current lpFn thr dx dy loop L R g rule: slice_shrink.induct)
  case (1 current lpFn thr dx dy loop L R g)
  let ?dist = "shd g * (R - L) + L"
  show ?case
  proof (cases "loop < 100")
    case False
    then show ?thesis by (subst slice_shrink.simps) simp
  next
    case lt: True
    have rej: "\<not> exceeds (lpFn (pt_x current + ?dist * dx) (pt_y current + ?dist * dy)) thr"
      using "1.prems" lt by (subst (asm) slice_shrink.simps) (auto simp: rand_simp Let_def)
    have "100 - loop = Suc (100 - (loop + 1))"
      using lt by linarith
    then have suc: "sdrop (100 - (loop + 1)) (stl g) = sdrop (100 - loop) g"
      by (simp only: sdrop.simps)
    show ?thesis
    proof (cases "?dist < 0")
      case True
      have eq: "slice_shrink current lpFn thr dx dy loop L R g
          = slice_shrink current lpFn thr dx dy (loop + 1) ?dist R (stl g)"
        using lt rej True by (subst slice_shrink.simps) (simp add: rand_simp Let_def)
      have "snd (slice_shrink current lpFn thr dx dy (loop + 1) ?dist R (stl g))
          = sdrop (100 - (loop + 1)) (stl g)"
        using "1.prems" unfolding eq
        by (rule "1.IH"(1)[OF lt _ refl refl refl rej True, rotated -1]) (simp add: rand_simp)
      then show ?thesis by (simp only: eq suc)
    next
      case False
      have eq: "slice_shrink current lpFn thr dx dy loop L R g
          = slice_shrink current lpFn thr dx dy (loop + 1) L ?dist (stl g)"
        using lt rej False by (subst slice_shrink.simps) (simp add: rand_simp Let_def)
      have "snd (slice_shrink current lpFn thr dx dy (loop + 1) L ?dist (stl g))
          = sdrop (100 - (loop + 1)) (stl g)"
        using "1.prems" unfolding eq
        by (rule "1.IH"(2)[OF lt _ refl refl refl rej False, rotated -1]) (simp add: rand_simp)
      then show ?thesis by (simp only: eq suc)
    qed
  qed
qed

lemma hitnrun_shrink_None:
  "fst (hitnrun_shrink current lpFn thr dx dy loop L R g) = None \<Longrightarrow>
     snd (hitnrun_shrink current lpFn thr dx dy loop L R g) = sdrop (50 - loop) g"
proof (induction current lpFn thr dx dy loop L R g rule: hitnrun_shrink.induct)
  case (1 current lpFn thr dx dy loop L R g)
  let ?dist = "shd g * (R - L) + L"
  show ?case
  proof (cases "loop < 50")
    case False
    then show ?thesis by (subst hitnrun_shrink.simps) simp
  next
    case lt: True
    have rej: "\<not> exceeds (lpFn (pt_x current + ?dist * dx) (pt_y current + ?dist * dy)) thr"
      using "1.prems" lt by (subst (asm) hitnrun_shrink.simps) (auto simp: rand_simp Let_def)
    have "50 - loop = Suc (50 - (loop + 1))"
      using lt by linarith
    then have suc: "sdrop (50 - (loop + 1)) (stl g) = sdrop (50 - loop) g"
      by (simp only: sdrop.simps)
    show ?thesis
    proof (cases "?dist < 0")
      case True
      have eq: "hitnrun_shrink current lpFn thr dx dy loop L R g
          = hitnrun_shrink current lpFn thr dx dy (loop + 1) ?dist R (stl g)"
        using lt rej True by (subst hitnrun_shrink.simps) (simp add: rand_simp Let_def)
      have "snd (hitnrun_shrink current lpFn thr dx dy (loop + 1) ?dist R (stl g))
          = sdrop (50 - (loop + 1)) (stl g)"
        using "1.prems" unfolding eq
        by (rule "1.IH"(1)[OF lt _ refl refl refl rej True, rotated -1]) (simp add: rand_simp)
      then show ?thesis by (simp only: eq suc)
    next
      case False
      have eq: "hitnrun_shrink current lpFn thr dx dy loop L R g
          = hitnrun_shrink current lpFn thr dx dy (loop + 1) L ?dist (stl g)"
        using lt rej False by (subst hitnrun_shrink.simps) (simp add: rand_simp Let_def)
      have "snd (hitnrun_shrink current lpFn thr dx dy (loop + 1) L ?dist (stl g))
          = sdrop (50 - (loop + 1)) (stl g)"
        using "1.prems" unfolding eq
        by (rule "1.IH"(2)[OF lt _ refl refl refl rej False, rotated -1]) (simp add: rand_simp)
      then show ?thesis by (simp only: eq suc)
    qed
  qed
qed

lemma elliptical_shrink_None:
  "fst (elliptical_shrink current lpFn thr nuX nuY loops theta thetaMin thetaMax g) = None \<Longrightarrow>
     snd (elliptical_shrink current lpFn thr nuX nuY loops theta thetaMin thetaMax g)
       = sdrop (50 - loops) g"
proof (induction current lpFn thr nuX nuY loops theta thetaMin thetaMax g rule: elliptical_shrink.induct)
  case (1 current lpFn thr nuX nuY loops theta thetaMin thetaMax g)
  let ?newX = "pt_x current * cos theta + nuX * sin theta"
  let ?newY = "pt_y current * cos theta + nuY * sin theta"
  let ?tmin = "if theta < 0 then theta else thetaMin"
  let ?tmax = "if theta < 0 then thetaMax else theta"
  let ?theta' = "shd g * (?tmax - ?tmin) + ?tmin"
  show ?case
  proof (cases "loops < 50")
    case False
    then show ?thesis by (subst elliptical_shrink.simps) simp
  next
    case lt: True
    have rej: "\<not> exceeds (lpFn ?newX ?newY) thr"
      using "1.prems" lt by (subst (asm) elliptical_shrink.simps) (auto simp: Let_def)
    have "50 - loops = Suc (50 - (loops + 1))"
      using lt by linarith
    then have suc: "sdrop (50 - (loops + 1)) (stl g) = sdrop (50 - loops) g"
      by (simp only: sdrop.simps)
    have eq: "elliptical_shrink current lpFn thr nuX nuY loops theta thetaMin thetaMax g
        = elliptical_shrink current lpFn thr nuX nuY (loops + 1) ?theta' ?tmin ?tmax (stl g)"
      using lt rej by (subst elliptical_shrink.simps) (simp add: rand_simp Let_def)
    have "snd (elliptical_shrink current lpFn thr nuX nuY (loops + 1) ?theta' ?tmin ?tmax (stl g))
        = sdrop (50 - (loops + 1)) (stl g)"
      using "1.prems" unfolding eq
      by (rule "1.IH"[OF lt refl refl rej refl refl, rotated -1]) (simp add: rand_simp)
    then show ?thesis by (simp only: eq suc)
  qed
qed

lemma slice_shrink_exhausted:
  "slice_shrink current lpFn thr dx dy 0 L R g = (None, g') \<Longrightarrow> g' = sdrop 100 g"
  using slice_shrink_None[of current lpFn thr dx dy 0 L R g] by simp

lemma hitnrun_shrink_exhausted:
  "hitnrun_shrink current lpFn thr dx dy 0 L R g = (None, g') \<Longrightarrow> g' = sdrop 50 g"
  using hitnrun_shrink_None[of current lpFn thr dx dy 0 L R g] by simp

lemma elliptical_shrink_exhausted:
  "elliptical_shrink current lpFn thr nuX nuY 0 theta thetaMin thetaMax g = (None, g')
     \<Longrightarrow> g' = sdrop 50 g"
  using elliptical_shrink_None[of current lpFn thr nuX nuY 0 theta thetaMin thetaMax g] by simp

text \<open>Each kernel is its bracket set-up followed by its shrink loop.\<close>

lemma stepSlice_via_bracket:
  "stepSlice params current lpFn g =
     (case slice_bracket params current lpFn g of (thr, dx, dy, L, R, g3) \<Rightarrow>
        case slice_shrink current lpFn thr dx dy 0 L R g3 of
          (Some result, g4) \<Rightarrow> (result, g4)
        | (None, g4) \<Rightarrow> (rejected current, g4))"
  by (simp add: stepSlice_def slice_bracket_def Let_def Math_random_def)

lemma stepHitAndRun_via_bracket:
  "stepHitAndRun current lpFn g =
     (case hitnrun_bracket current lpFn g of (thr, dx, dy, L, R, g2) \<Rightarrow>
        case hitnrun_shrink current lpFn thr dx dy 0 L R g2 of
          (Some result, g3) \<Rightarrow> (result, g3)
        | (None, g3) \<Rightarrow> (rejected current, g3))"
  by (simp add: stepHitAndRun_def hitnrun_bracket_def Let_def Math_random_def)

lemma stepElliptical_via_bracket:
  assumes "randn g = Some (nuX, g1)" and "randn g1 = Some (nuY, g2)"
  shows "stepElliptical current lpFn g =
     (case elliptical_bracket current lpFn g2 of (thr, theta, thetaMin, thetaMax, g4) \<Rightarrow>
        case elliptical_shrink current lpFn thr nuX nuY 0 theta thetaMin thetaMax g4 of
          (Some result, g5) \<Rightarrow> Some (result, g5)
        | (None, g5) \<Rightarrow> Some (rejected current, g5))"
  using assms
  by (simp add: stepElliptical_def elliptical_bracket_def Let_def Math_random_def)

lemma slice_result:
  "(let r = fst (stepSlice params current lpFn g);
        thr = log_plus (lpFn (pt_x current) (pt_y current)) (Math_log (shd g))
    in if accepted r then exceeds (lpFn (pt_x r) (pt_y r)) thr else r = rejected current)"
proof -
  obtain thr dx dy L R g3 where b: "slice_bracket params current lpFn g = (thr, dx, dy, L, R, g3)"
    by (metis prod_cases3)
  then have thr: "thr = log_plus (lpFn (pt_x current) (pt_y current)) (Math_log (shd g))"
    by (simp add: slice_bracket_def Let_def)
  obtain res g4 where s: "slice_shrink current lpFn thr dx dy 0 L R g3 = (res, g4)"
    by (metis prod.exhaust)
  show ?thesis
  proof (cases res)
    case None
    with b s have "fst (stepSlice params current lpFn g) = rejected current"
      by (simp add: stepSlice_via_bracket)
    then show ?thesis by (simp add: rejected_def)
  next
    case (Some r)
    with b s have "fst (stepSlice params current lpFn g) = r"
      by (simp add: stepSlice_via_bracket)
    moreover from slice_shrink_Some[of current lpFn thr dx dy 0 L R g3 r] s Some
    have "accepted r \<and> exceeds (lpFn (pt_x r) (pt_y r)) thr" by simp
    ultimately show ?thesis by (simp add: thr)
  qed
qed

lemma hitnrun_result:
  "(let r = fst (stepHitAndRun current lpFn g);
        thr = log_plus (lpFn (pt_x current) (pt_y current)) (Math_log (shd (stl g)))
    in if accepted r then exceeds (lpFn (pt_x r) (pt_y r)) thr else r = rejected current)"
proof -
  obtain thr dx dy L R g3 where b: "hitnrun_bracket current lpFn g = (thr, dx, dy, L, R, g3)"
    by (metis prod_cases3)
  then have thr: "thr = log_plus (lpFn (pt_x current) (pt_y current)) (Math_log (shd (stl g)))"
    by (simp add: hitnrun_bracket_def Let_def)
  obtain res g4 where s: "hitnrun_shrink current lpFn thr dx dy 0 L R g3 = (res, g4)"
    by (metis prod.exhaust)
  show ?thesis
  proof (cases res)
    case None
    with b s have "fst (stepHitAndRun current lpFn g) = rejected current"
      by (simp add: stepHitAndRun_via_bracket)
    then show ?thesis by (simp add: rejected_def)
  next
    case (Some r)
    with b s have "fst (stepHitAndRun current lpFn g) = r"
      by (simp add: stepHitAndRun_via_bracket)
    moreover from hitnrun_shrink_Some[of current lpFn thr dx dy 0 L R g3 r] s Some
    have "accepted r \<and> exceeds (lpFn (pt_x r) (pt_y r)) thr" by simp
    ultimately show ?thesis by (simp add: thr)
  qed
qed

lemma elliptical_result:
  assumes "randn g = Some (nuX, g1)" and "randn g1 = Some (nuY, g2)"
  shows "\<exists>r g'. stepElliptical current lpFn g = Some (r, g')
        \<and> (let thr = log_plus (lpFn (pt_x current) (pt_y current)) (Math_log (shd g2))
           in if accepted r then exceeds (lpFn (pt_x r) (pt_y r)) thr else r = rejected current)"
proof -
  obtain thr theta thetaMin thetaMax g4
    where b: "elliptical_bracket current lpFn g2 = (thr, theta, thetaMin, thetaMax, g4)"
    by (metis prod_cases3)
  then have thr: "thr = log_plus (lpFn (pt_x current) (pt_y current)) (Math_log (shd g2))"
    by (simp add: elliptical_bracket_def Let_def)
  obtain res g5
    where s: "elliptical_shrink current lpFn thr nuX nuY 0 theta thetaMin thetaMax g4 = (res, g5)"
    by (metis prod.exhaust)
  show ?thesis
  proof (cases res)
    case None
    with b s have "stepElliptical current lpFn g = Some (rejected current, g5)"
      by (simp add: stepElliptical_via_bracket[OF assms])
    then show ?thesis by (simp add: rejected_def)
  next
    case (Some r)
    with b s have "stepElliptical current lpFn g = Some (r, g5)"
      by (simp add: stepElliptical_via_bracket[OF assms])
    moreover from elliptical_shrink_Some[of current lpFn thr nuX nuY 0 theta thetaMin thetaMax g4 r] s Some
    have "accepted r \<and> exceeds (lpFn (pt_x r) (pt_y r)) thr" by simp
    ultimately show ?thesis by (simp add: thr)
  qed
qed

lemma slice_terminates:
  "\<exists>r n. n \<le> 103 \<and> kernel_step slice params current lpFn gradFn g = Some (r, sdrop n g)"
proof -
  obtain thr dx dy L R g3 where b: "slice_bracket params current lpFn g = (thr, dx, dy, L, R, g3)"
    by (metis prod_cases3)
  then have g3: "g3 = stl (stl (stl g))"
    by (simp add: slice_bracket_def Let_def)
  obtain n where n: "n \<le> 100" "snd (slice_shrink current lpFn thr dx dy 0 L R g3) = sdrop n g3"
    using slice_shrink_draws[of 0 current lpFn thr dx dy L R g3] by auto
  have "snd (stepSlice params current lpFn g) = sdrop n g3"
    using b n(2) by (auto simp: stepSlice_via_bracket split: prod.splits option.splits)
  also have "\<dots> = sdrop (Suc (Suc (Suc n))) g"
    by (simp add: g3)
  finally have "stepSlice params current lpFn g
      = (fst (stepSlice params current lpFn g), sdrop (Suc (Suc (Suc n))) g)"
    by (metis prod.collapse)
  moreover have "Suc (Suc (Suc n)) \<le> 103" using n(1) by simp
  ultimately show ?thesis by (metis kernel_step.simps(3))
qed

lemma hitnrun_terminates:
  "\<exists>r n. n \<le> 52 \<and> kernel_step hitnrun params current lpFn gradFn g = Some (r, sdrop n g)"
proof -
  obtain thr dx dy L R g3 where b: "hitnrun_bracket current lpFn g = (thr, dx, dy, L, R, g3)"
    by (metis prod_cases3)
  then have g3: "g3 = stl (stl g)"
    by (simp add: hitnrun_bracket_def Let_def)
  obtain n where n: "n \<le> 50" "snd (hitnrun_shrink current lpFn thr dx dy 0 L R g3) = sdrop n g3"
    using hitnrun_shrink_draws[of 0 current lpFn thr dx dy L R g3] by auto
  have "snd (stepHitAndRun current lpFn g) = sdrop n g3"
    using b n(2) by (auto simp: stepHitAndRun_via_bracket split: prod.splits option.splits)
  also have "\<dots> = sdrop (Suc (Suc n)) g"
    by (simp add: g3)
  finally have "stepHitAndRun current lpFn g
      = (fst (stepHitAndRun current lpFn g), sdrop (Suc (Suc n)) g)"
    by (metis prod.collapse)
  moreover have "Suc (Suc n) \<le> 52" using n(1) by simp
  ultimately show ?thesis by (metis kernel_step.simps(5))
qed

lemma elliptical_terminates:
  assumes "randn g = Some (nuX, g1)" and "randn g1 = Some (nuY, g2)"
  shows "\<exists>r n. n \<le> 52 \<and> kernel_step elliptical params current lpFn gradFn g = Some (r, sdrop n g2)"
proof -
  obtain thr theta thetaMin thetaMax g4
    where b: "elliptical_bracket current lpFn g2 = (thr, theta, thetaMin, thetaMax, g4)"
    by (metis prod_cases3)
  then have g4: "g4 = stl (stl g2)"
    by (simp add: elliptical_bracket_def Let_def)
  obtain n where n: "n \<le> 50"
    "snd (elliptical_shrink current lpFn thr nuX nuY 0 theta thetaMin thetaMax g4) = sdrop n g4"
    using elliptical_shrink_draws[of 0 current lpFn thr nuX nuY theta thetaMin thetaMax g4] by auto
  have "\<exists>r. stepElliptical current lpFn g = Some (r, sdrop n g4)"
    using b n(2) by (auto simp: stepElliptical_via_bracket[OF assms] split: prod.splits option.splits)
  then obtain r where "stepElliptical current lpFn g = Some (r, sdrop (Suc (Suc n)) g2)"
    by (auto simp: g4)
  moreover have "Suc (Suc n) \<le> 52" using n(1) by simp
  ultimately show ?thesis by (metis kernel_step.simps(4))
qed

lemma slice_fallback:
  "case slice_bracket params current lpFn g of (thr, dx, dy, L, R, g3) \<Rightarrow>
     fst (slice_shrink current lpFn thr dx dy 0 L R g3) = None \<longrightarrow>
       stepSlice params current lpFn g = (rejected current, sdrop 100 g3)"
  by (auto simp: stepSlice_via_bracket split: prod.splits option.splits
        dest: slice_shrink_exhausted)

lemma hitnrun_fallback:
  "case hitnrun_bracket current lpFn g of (thr, dx, dy, L, R, g2) \<Rightarrow>
     fst (hitnrun_shrink current lpFn thr dx dy 0 L R g2) = None \<longrightarrow>
       stepHitAndRun current lpFn g = (rejected current, sdrop 50 g2)"
  by (auto simp: stepHitAndRun_via_bracket split: prod.splits option.splits
        dest: hitnrun_shrink_exhausted)

lemma elliptical_fallback:
  assumes "randn g = Some (nuX, g1)" and "randn g1 = Some (nuY, g2)"
  shows "case elliptical_bracket current lpFn g2 of (thr, theta, thetaMin, thetaMax, g4) \<Rightarrow>
     fst (elliptical_shrink current lpFn thr nuX nuY 0 theta thetaMin thetaMax g4) = None \<longrightarrow>
       stepElliptical current lpFn g = Some (rejected current, sdrop 50 g4)"
  by (auto simp: stepElliptical_via_bracket[OF assms] split: prod.splits option.splits
        dest: elliptical_shrink_exhausted)

text \<open>Runs that reach the cap: with every shrink draw equal to \<open>0\<close> each candidate is the
  left endpoint of the bracket, which stays outside the slice.\<close>

lemma slice_shrink_zeros:
  assumes "L < 0" and "\<not> exceeds (lpFn (pt_x current + L * dx) (pt_y current + L * dy)) thr"
  shows "slice_shrink current lpFn thr dx dy loop L R (sconst 0) = (None, sconst 0)"
proof (induction "100 - loop" arbitrary: loop)
  case 0
  then show ?case by (subst slice_shrink.simps) simp
next
  case (Suc k)
  then have lt: "loop < 100" and k: "k = 100 - (loop + 1)" by simp_all
  from Suc(1)[OF k] lt assms show ?case
    by (subst slice_shrink.simps) (simp add: rand_simp Let_def)
qed

lemma hitnrun_shrink_zeros:
  assumes "L < 0" and "\<not> exceeds (lpFn (pt_x current + L * dx) (pt_y current + L * dy)) thr"
  shows "hitnrun_shrink current lpFn thr dx dy loop L R (sconst 0) = (None, sconst 0)"
proof (induction "50 - loop" arbitrary: loop)
  case 0
  then show ?case by (subst hitnrun_shrink.simps) simp
next
  case (Suc k)
  then have lt: "loop < 50" and k: "k = 50 - (loop + 1)" by simp_all
  from Suc(1)[OF k] lt assms show ?case
    by (subst hitnrun_shrink.simps) (simp add: rand_simp Let_def)
qed

lemma ln_three_quarters: "- (2 / 5) \<le> ln (3 / 4 :: real)"
proof -
  have "1 + 2 / 5 \<le> exp (2 / 5 :: real)" by (rule exp_ge_add_one_self)
  then have "exp (- (2 / 5) :: real) \<le> 1 / (1 + 2 / 5)"
    by (simp add: exp_minus field_simps)
  also have "\<dots> \<le> 3 / 4" by simp
  finally show ?thesis by (simp add: ln_ge_iff)
qed

lemma hitnrun_gaussian_bracket:
  "hitnrun_bracket \<lparr>pt_x = 0.1, pt_y = 0.1\<rparr> (LOG_PROBS gaussian) (0 ## 3/4 ## sconst 0)
     = (Finite (- (1 / 100) + ln (3 / 4)), 1, 0, - 1, 1, sconst 0)"
  using ln_three_quarters
  by (simp add: hitnrun_bracket_def Let_def PI2_def Math_log_def
        hitnrun_stepout_L.simps[of _ _ _ _ _ 0] hitnrun_stepout_R.simps[of _ _ _ _ _ 0] power2_eq_square)

lemma slice_gaussian_bracket:
  "slice_bracket \<lparr>stepSize = 3, stepsPerFrame = 1, hmcSteps = 10, hmcEpsilon = 0.1\<rparr>
      \<lparr>pt_x = 0.1, pt_y = 0.1\<rparr> (LOG_PROBS gaussian) (3/4 ## 0 ## 1/2 ## sconst 0)
     = (Finite (- (1 / 100) + ln (3 / 4)), 1, 0, - (3 / 2), 3 / 2, sconst 0)"
  using ln_three_quarters
  by (simp add: slice_bracket_def Let_def PI2_def Math_log_def
        slice_stepout_L.simps[of _ _ _ _ _ _ 0] slice_stepout_R.simps[of _ _ _ _ _ _ 0] power2_eq_square)

lemma slice_gaussian_exhausted:
  "slice_shrink \<lparr>pt_x = 0.1, pt_y = 0.1\<rparr> (LOG_PROBS gaussian)
     (Finite (- (1 / 100) + ln (3 / 4))) 1 0 0 (- (3 / 2)) (3 / 2) (sconst 0) = (None, sconst 0)"
  using ln_three_quarters by (intro slice_shrink_zeros) (simp_all add: power2_eq_square)

text \<open>The shrink loops against their reference runs: a loop that falls through has seen every
  candidate of the run at or below the threshold; a loop that returns does so at the first
  candidate above it, with the bracket shrunk by the candidates before.\<close>

lemma line_candidate_0:
  "line_candidate current dx dy L R g 0 =
     \<lparr>pt_x = pt_x current + (shd g * (R - L) + L) * dx,
      pt_y = pt_y current + (shd g * (R - L) + L) * dy\<rparr>"
  by (simp add: line_candidate_def)

lemma line_candidate_Suc:
  "line_candidate current dx dy L R g (Suc n) =
     (if shd g * (R - L) + L < 0
      then line_candidate current dx dy (shd g * (R - L) + L) R (stl g) n
      else line_candidate current dx dy L (shd g * (R - L) + L) (stl g) n)"
  by (simp add: line_candidate_def)

lemma all_less_Suc_shift:
  "(\<forall>n < Suc k. P n) \<longleftrightarrow> P 0 \<and> (\<forall>n < k. P (Suc n))"
  by (metis less_Suc_eq_0_disj Suc_less_eq zero_less_Suc)

lemma cap_step: "loop < c \<Longrightarrow> c - loop = Suc (c - (loop + 1))"
  by simp

lemma slice_shrink_None_all:
  "fst (slice_shrink current lpFn thr dx dy loop L R g) = None \<Longrightarrow>
     \<forall>n < 100 - loop. \<not> exceeds (lp_at lpFn (line_candidate current dx dy L R g n)) thr"
proof (induction current lpFn thr dx dy loop L R g rule: slice_shrink.induct)
  case (1 current lpFn thr dx dy loop L R g)
  let ?dist = "shd g * (R - L) + L"
  show ?case
  proof (cases "loop < 100")
    case False
    then show ?thesis by simp
  next
    case lt: True
    have rej: "\<not> exceeds (lpFn (pt_x current + ?dist * dx) (pt_y current + ?dist * dy)) thr"
      using "1.prems" lt by (subst (asm) slice_shrink.simps) (auto simp: rand_simp Let_def)
    then have c0: "\<not> exceeds (lp_at lpFn (line_candidate current dx dy L R g 0)) thr"
      by (simp add: line_candidate_0 lp_at_def)
    have rest: "\<forall>n < 100 - (loop + 1).
        \<not> exceeds (lp_at lpFn (line_candidate current dx dy L R g (Suc n))) thr"
    proof (cases "?dist < 0")
      case True
      have eq: "slice_shrink current lpFn thr dx dy loop L R g
          = slice_shrink current lpFn thr dx dy (loop + 1) ?dist R (stl g)"
        using lt rej True by (subst slice_shrink.simps) (simp add: rand_simp Let_def)
      have "\<forall>n < 100 - (loop + 1).
          \<not> exceeds (lp_at lpFn (line_candidate current dx dy ?dist R (stl g) n)) thr"
        using "1.prems" unfolding eq
        by (rule "1.IH"(1)[OF lt _ refl refl refl rej True, rotated -1]) (simp add: rand_simp)
      with True show ?thesis by (simp add: line_candidate_Suc)
    next
      case False
      have eq: "slice_shrink current lpFn thr dx dy loop L R g
          = slice_shrink current lpFn thr dx dy (loop + 1) L ?dist (stl g)"
        using lt rej False by (subst slice_shrink.simps) (simp add: rand_simp Let_def)
      have "\<forall>n < 100 - (loop + 1).
          \<not> exceeds (lp_at lpFn (line_candidate current dx dy L ?dist (stl g) n)) thr"
        using "1.prems" unfolding eq
        by (rule "1.IH"(2)[OF lt _ refl refl refl rej False, rotated -1]) (simp add: rand_simp)
      with False show ?thesis by (simp add: line_candidate_Suc)
    qed
    show ?thesis
      unfolding cap_step[OF lt] all_less_Suc_shift using c0 rest by blast
  qed
qed

lemma slice_shrink_Some_first:
  "fst (slice_shrink current lpFn thr dx dy loop L R g) = Some r \<Longrightarrow>
     \<exists>n < 100 - loop.
       (\<forall>m < n. \<not> exceeds (lp_at lpFn (line_candidate current dx dy L R g m)) thr)
       \<and> exceeds (lp_at lpFn (line_candidate current dx dy L R g n)) thr
       \<and> snd (slice_shrink current lpFn thr dx dy loop L R g) = sdrop (Suc n) g
       \<and> (case shrunk_bracket L R g n of (L', R') \<Rightarrow>
            r = \<lparr>pt_x = pt_x (line_candidate current dx dy L R g n),
                 pt_y = pt_y (line_candidate current dx dy L R g n),
                 accepted = True,
                 path = Some [\<lparr>pt_x = pt_x current + L' * dx, pt_y = pt_y current + L' * dy\<rparr>,
                              \<lparr>pt_x = pt_x current + R' * dx, pt_y = pt_y current + R' * dy\<rparr>]\<rparr>)"
proof (induction current lpFn thr dx dy loop L R g rule: slice_shrink.induct)
  case (1 current lpFn thr dx dy loop L R g)
  let ?dist = "shd g * (R - L) + L"
  define Q where "Q = (\<lambda>loop L R g n.
       (\<forall>m < n. \<not> exceeds (lp_at lpFn (line_candidate current dx dy L R g m)) thr)
       \<and> exceeds (lp_at lpFn (line_candidate current dx dy L R g n)) thr
       \<and> snd (slice_shrink current lpFn thr dx dy loop L R g) = sdrop (Suc n) g
       \<and> (case shrunk_bracket L R g n of (L', R') \<Rightarrow>
            r = \<lparr>pt_x = pt_x (line_candidate current dx dy L R g n),
                 pt_y = pt_y (line_candidate current dx dy L R g n),
                 accepted = True,
                 path = Some [\<lparr>pt_x = pt_x current + L' * dx, pt_y = pt_y current + L' * dy\<rparr>,
                              \<lparr>pt_x = pt_x current + R' * dx, pt_y = pt_y current + R' * dy\<rparr>]\<rparr>))"
  from "1.prems" have lt: "loop < 100"
    by (subst (asm) slice_shrink.simps) (simp split: if_splits)
  have "\<exists>n < 100 - loop. Q loop L R g n"
  proof (cases "exceeds (lpFn (pt_x current + ?dist * dx) (pt_y current + ?dist * dy)) thr")
    case True
    with lt "1.prems" have r: "r = \<lparr>pt_x = pt_x current + ?dist * dx, pt_y = pt_y current + ?dist * dy,
          accepted = True,
          path = Some [\<lparr>pt_x = pt_x current + L * dx, pt_y = pt_y current + L * dy\<rparr>,
                       \<lparr>pt_x = pt_x current + R * dx, pt_y = pt_y current + R * dy\<rparr>]\<rparr>"
      by (subst (asm) slice_shrink.simps) (simp add: rand_simp Let_def)
    have s: "snd (slice_shrink current lpFn thr dx dy loop L R g) = sdrop (Suc 0) g"
      using True lt by (subst slice_shrink.simps) (simp add: rand_simp Let_def)
    have "Q loop L R g 0"
      unfolding Q_def using True s by (simp add: line_candidate_0 lp_at_def r)
    moreover have "0 < 100 - loop" using lt by simp
    ultimately show ?thesis by blast
  next
    case rej: False
    then have c0: "\<not> exceeds (lp_at lpFn (line_candidate current dx dy L R g 0)) thr"
      by (simp add: line_candidate_0 lp_at_def)
    have "\<exists>n < 100 - (loop + 1). Q loop L R g (Suc n)"
    proof (cases "?dist < 0")
      case True
      have eq: "slice_shrink current lpFn thr dx dy loop L R g
          = slice_shrink current lpFn thr dx dy (loop + 1) ?dist R (stl g)"
        using lt rej True by (subst slice_shrink.simps) (simp add: rand_simp Let_def)
      have "\<exists>n < 100 - (loop + 1). Q (loop + 1) ?dist R (stl g) n"
        unfolding Q_def using "1.prems" unfolding eq
        by (rule "1.IH"(1)[OF lt _ refl refl refl rej True, rotated -1]) (simp add: rand_simp)
      then obtain n where n: "n < 100 - (loop + 1)" and q: "Q (loop + 1) ?dist R (stl g) n"
        by blast
      have "Q loop L R g (Suc n)"
        using q c0 True unfolding Q_def eq
        by (simp add: all_less_Suc_shift line_candidate_Suc)
      with n show ?thesis by blast
    next
      case False
      have eq: "slice_shrink current lpFn thr dx dy loop L R g
          = slice_shrink current lpFn thr dx dy (loop + 1) L ?dist (stl g)"
        using lt rej False by (subst slice_shrink.simps) (simp add: rand_simp Let_def)
      have "\<exists>n < 100 - (loop + 1). Q (loop + 1) L ?dist (stl g) n"
        unfolding Q_def using "1.prems" unfolding eq
        by (rule "1.IH"(2)[OF lt _ refl refl refl rej False, rotated -1]) (simp add: rand_simp)
      then obtain n where n: "n < 100 - (loop + 1)" and q: "Q (loop + 1) L ?dist (stl g) n"
        by blast
      have "Q loop L R g (Suc n)"
        using q c0 False unfolding Q_def eq
        by (simp add: all_less_Suc_shift line_candidate_Suc)
      with n show ?thesis by blast
    qed
    then obtain n where "n < 100 - (loop + 1)" "Q loop L R g (Suc n)" by blast
    moreover from this(1) lt have "Suc n < 100 - loop" by simp
    ultimately show ?thesis by blast
  qed
  then show ?case unfolding Q_def .
qed

lemma hitnrun_shrink_None_all:
  "fst (hitnrun_shrink current lpFn thr dx dy loop L R g) = None \<Longrightarrow>
     \<forall>n < 50 - loop. \<not> exceeds (lp_at lpFn (line_candidate current dx dy L R g n)) thr"
proof (induction current lpFn thr dx dy loop L R g rule: hitnrun_shrink.induct)
  case (1 current lpFn thr dx dy loop L R g)
  let ?dist = "shd g * (R - L) + L"
  show ?case
  proof (cases "loop < 50")
    case False
    then show ?thesis by simp
  next
    case lt: True
    have rej: "\<not> exceeds (lpFn (pt_x current + ?dist * dx) (pt_y current + ?dist * dy)) thr"
      using "1.prems" lt by (subst (asm) hitnrun_shrink.simps) (auto simp: rand_simp Let_def)
    then have c0: "\<not> exceeds (lp_at lpFn (line_candidate current dx dy L R g 0)) thr"
      by (simp add: line_candidate_0 lp_at_def)
    have rest: "\<forall>n < 50 - (loop + 1).
        \<not> exceeds (lp_at lpFn (line_candidate current dx dy L R g (Suc n))) thr"
    proof (cases "?dist < 0")
      case True
      have eq: "hitnrun_shrink current lpFn thr dx dy loop L R g
          = hitnrun_shrink current lpFn thr dx dy (loop + 1) ?dist R (stl g)"
        using lt rej True by (subst hitnrun_shrink.simps) (simp add: rand_simp Let_def)
      have "\<forall>n < 50 - (loop + 1).
          \<not> exceeds (lp_at lpFn (line_candidate current dx dy ?dist R (stl g) n)) thr"
        using "1.prems" unfolding eq
        by (rule "1.IH"(1)[OF lt _ refl refl refl rej True, rotated -1]) (simp add: rand_simp)
      with True show ?thesis by (simp add: line_candidate_Suc)
    next
      case False
      have eq: "hitnrun_shrink current lpFn thr dx dy loop L R g
          = hitnrun_shrink current lpFn thr dx dy (loop + 1) L ?dist (stl g)"
        using lt rej False by (subst hitnrun_shrink.simps) (simp add: rand_simp Let_def)
      have "\<forall>n < 50 - (loop + 1).
          \<not> exceeds (lp_at lpFn (line_candidate current dx dy L ?dist (stl g) n)) thr"
        using "1.prems" unfolding eq
        by (rule "1.IH"(2)[OF lt _ refl refl refl rej False, rotated -1]) (simp add: rand_simp)
      with False show ?thesis by (simp add: line_candidate_Suc)
    qed
    show ?thesis
      unfolding cap_step[OF lt] all_less_Suc_shift using c0 rest by blast
  qed
qed

lemma hitnrun_shrink_Some_first:
  "fst (hitnrun_shrink current lpFn thr dx dy loop L R g) = Some r \<Longrightarrow>
     \<exists>n < 50 - loop.
       (\<forall>m < n. \<not> exceeds (lp_at lpFn (line_candidate current dx dy L R g m)) thr)
       \<and> exceeds (lp_at lpFn (line_candidate current dx dy L R g n)) thr
       \<and> snd (hitnrun_shrink current lpFn thr dx dy loop L R g) = sdrop (Suc n) g
       \<and> r = \<lparr>pt_x = pt_x (line_candidate current dx dy L R g n),
              pt_y = pt_y (line_candidate current dx dy L R g n),
              accepted = True, path = None\<rparr>"
proof (induction current lpFn thr dx dy loop L R g rule: hitnrun_shrink.induct)
  case (1 current lpFn thr dx dy loop L R g)
  let ?dist = "shd g * (R - L) + L"
  define Q where "Q = (\<lambda>loop L R g n.
       (\<forall>m < n. \<not> exceeds (lp_at lpFn (line_candidate current dx dy L R g m)) thr)
       \<and> exceeds (lp_at lpFn (line_candidate current dx dy L R g n)) thr
       \<and> snd (hitnrun_shrink current lpFn thr dx dy loop L R g) = sdrop (Suc n) g
       \<and> r = \<lparr>pt_x = pt_x (line_candidate current dx dy L R g n),
              pt_y = pt_y (line_candidate current dx dy L R g n),
              accepted = True, path = None\<rparr>)"
  from "1.prems" have lt: "loop < 50"
    by (subst (asm) hitnrun_shrink.simps) (simp split: if_splits)
  have "\<exists>n < 50 - loop. Q loop L R g n"
  proof (cases "exceeds (lpFn (pt_x current + ?dist * dx) (pt_y current + ?dist * dy)) thr")
    case True
    with lt "1.prems" have r: "r = \<lparr>pt_x = pt_x current + ?dist * dx, pt_y = pt_y current + ?dist * dy,
          accepted = True, path = None\<rparr>"
      by (subst (asm) hitnrun_shrink.simps) (simp add: rand_simp Let_def)
    have s: "snd (hitnrun_shrink current lpFn thr dx dy loop L R g) = sdrop (Suc 0) g"
      using True lt by (subst hitnrun_shrink.simps) (simp add: rand_simp Let_def)
    have "Q loop L R g 0"
      unfolding Q_def using True s by (simp add: line_candidate_0 lp_at_def r)
    moreover have "0 < 50 - loop" using lt by simp
    ultimately show ?thesis by blast
  next
    case rej: False
    then have c0: "\<not> exceeds (lp_at lpFn (line_candidate current dx dy L R g 0)) thr"
      by (simp add: line_candidate_0 lp_at_def)
    have "\<exists>n < 50 - (loop + 1). Q loop L R g (Suc n)"
    proof (cases "?dist < 0")
      case True
      have eq: "hitnrun_shrink current lpFn thr dx dy loop L R g
          = hitnrun_shrink current lpFn thr dx dy (loop + 1) ?dist R (stl g)"
        using lt rej True by (subst hitnrun_shrink.simps) (simp add: rand_simp Let_def)
      have "\<exists>n < 50 - (loop + 1). Q (loop + 1) ?dist R (stl g) n"
        unfolding Q_def using "1.prems" unfolding eq
        by (rule "1.IH"(1)[OF lt _ refl refl refl rej True, rotated -1]) (simp add: rand_simp)
      then obtain n where n: "n < 50 - (loop + 1)" and q: "Q (loop + 1) ?dist R (stl g) n"
        by blast
      have "Q loop L R g (Suc n)"
        using q c0 True unfolding Q_def eq
        by (simp add: all_less_Suc_shift line_candidate_Suc)
      with n show ?thesis by blast
    next
      case False
      have eq: "hitnrun_shrink current lpFn thr dx dy loop L R g
          = hitnrun_shrink current lpFn thr dx dy (loop + 1) L ?dist (stl g)"
        using lt rej False by (subst hitnrun_shrink.simps) (simp add: rand_simp Let_def)
      have "\<exists>n < 50 - (loop + 1). Q (loop + 1) L ?dist (stl g) n"
        unfolding Q_def using "1.prems" unfolding eq
        by (rule "1.IH"(2)[OF lt _ refl refl refl rej False, rotated -1]) (simp add: rand_simp)
      then obtain n where n: "n < 50 - (loop + 1)" and q: "Q (loop + 1) L ?dist (stl g) n"
        by blast
      have "Q loop L R g (Suc n)"
        using q c0 False unfolding Q_def eq
        by (simp add: all_less_Suc_shift line_candidate_Suc)
      with n show ?thesis by blast
    qed
    then obtain n where "n < 50 - (loop + 1)" "Q loop L R g (Suc n)" by blast
    moreover from this(1) lt have "Suc n < 50 - loop" by simp
    ultimately show ?thesis by blast
  qed
  then show ?case unfolding Q_def .
qed

lemma ellipse_candidate_0:
  "ellipse_candidate current nuX nuY theta lo hi g 0 =
     \<lparr>pt_x = pt_x current * cos theta + nuX * sin theta,
      pt_y = pt_y current * cos theta + nuY * sin theta\<rparr>"
  by (simp add: ellipse_candidate_def)

lemma ellipse_candidate_Suc:
  "ellipse_candidate current nuX nuY theta lo hi g (Suc n) =
     ellipse_candidate current nuX nuY
       (shd g * ((if theta < 0 then hi else theta) - (if theta < 0 then theta else lo))
          + (if theta < 0 then theta else lo))
       (if theta < 0 then theta else lo) (if theta < 0 then hi else theta) (stl g) n"
  by (simp add: ellipse_candidate_def Let_def)

lemma elliptical_shrink_None_all:
  "fst (elliptical_shrink current lpFn thr nuX nuY loops theta thetaMin thetaMax g) = None \<Longrightarrow>
     \<forall>n < 50 - loops.
       \<not> exceeds (lp_at lpFn (ellipse_candidate current nuX nuY theta thetaMin thetaMax g n)) thr"
proof (induction current lpFn thr nuX nuY loops theta thetaMin thetaMax g rule: elliptical_shrink.induct)
  case (1 current lpFn thr nuX nuY loops theta thetaMin thetaMax g)
  let ?newX = "pt_x current * cos theta + nuX * sin theta"
  let ?newY = "pt_y current * cos theta + nuY * sin theta"
  let ?tmin = "if theta < 0 then theta else thetaMin"
  let ?tmax = "if theta < 0 then thetaMax else theta"
  let ?theta' = "shd g * (?tmax - ?tmin) + ?tmin"
  show ?case
  proof (cases "loops < 50")
    case False
    then show ?thesis by simp
  next
    case lt: True
    have rej: "\<not> exceeds (lpFn ?newX ?newY) thr"
      using "1.prems" lt by (subst (asm) elliptical_shrink.simps) (auto simp: Let_def)
    then have c0: "\<not> exceeds (lp_at lpFn
        (ellipse_candidate current nuX nuY theta thetaMin thetaMax g 0)) thr"
      by (simp add: ellipse_candidate_0 lp_at_def)
    have eq: "elliptical_shrink current lpFn thr nuX nuY loops theta thetaMin thetaMax g
        = elliptical_shrink current lpFn thr nuX nuY (loops + 1) ?theta' ?tmin ?tmax (stl g)"
      using lt rej by (subst elliptical_shrink.simps) (simp add: rand_simp Let_def)
    have "\<forall>n < 50 - (loops + 1).
        \<not> exceeds (lp_at lpFn (ellipse_candidate current nuX nuY ?theta' ?tmin ?tmax (stl g) n)) thr"
      using "1.prems" unfolding eq
      by (rule "1.IH"[OF lt refl refl rej refl refl, rotated -1]) (simp add: rand_simp)
    then have rest: "\<forall>n < 50 - (loops + 1).
        \<not> exceeds (lp_at lpFn
            (ellipse_candidate current nuX nuY theta thetaMin thetaMax g (Suc n))) thr"
      by (simp only: ellipse_candidate_Suc)
    show ?thesis
      unfolding cap_step[OF lt] all_less_Suc_shift using c0 rest by blast
  qed
qed

lemma elliptical_shrink_Some_first:
  "fst (elliptical_shrink current lpFn thr nuX nuY loops theta thetaMin thetaMax g) = Some r \<Longrightarrow>
     \<exists>n < 50 - loops.
       (\<forall>m < n. \<not> exceeds (lp_at lpFn
                     (ellipse_candidate current nuX nuY theta thetaMin thetaMax g m)) thr)
       \<and> exceeds (lp_at lpFn (ellipse_candidate current nuX nuY theta thetaMin thetaMax g n)) thr
       \<and> snd (elliptical_shrink current lpFn thr nuX nuY loops theta thetaMin thetaMax g)
           = sdrop n g
       \<and> r = \<lparr>pt_x = pt_x (ellipse_candidate current nuX nuY theta thetaMin thetaMax g n),
               pt_y = pt_y (ellipse_candidate current nuX nuY theta thetaMin thetaMax g n),
               accepted = True, path = None\<rparr>"
proof (induction current lpFn thr nuX nuY loops theta thetaMin thetaMax g rule: elliptical_shrink.induct)
  case (1 current lpFn thr nuX nuY loops theta thetaMin thetaMax g)
  let ?newX = "pt_x current * cos theta + nuX * sin theta"
  let ?newY = "pt_y current * cos theta + nuY * sin theta"
  let ?tmin = "if theta < 0 then theta else thetaMin"
  let ?tmax = "if theta < 0 then thetaMax else theta"
  let ?theta' = "shd g * (?tmax - ?tmin) + ?tmin"
  define Q where "Q = (\<lambda>loops theta thetaMin thetaMax g n.
       (\<forall>m < n. \<not> exceeds (lp_at lpFn
                     (ellipse_candidate current nuX nuY theta thetaMin thetaMax g m)) thr)
       \<and> exceeds (lp_at lpFn (ellipse_candidate current nuX nuY theta thetaMin thetaMax g n)) thr
       \<and> snd (elliptical_shrink current lpFn thr nuX nuY loops theta thetaMin thetaMax g)
           = sdrop n g
       \<and> r = \<lparr>pt_x = pt_x (ellipse_candidate current nuX nuY theta thetaMin thetaMax g n),
               pt_y = pt_y (ellipse_candidate current nuX nuY theta thetaMin thetaMax g n),
               accepted = True, path = None\<rparr>)"
  from "1.prems" have lt: "loops < 50"
    by (subst (asm) elliptical_shrink.simps) (simp split: if_splits)
  have "\<exists>n < 50 - loops. Q loops theta thetaMin thetaMax g n"
  proof (cases "exceeds (lpFn ?newX ?newY) thr")
    case True
    with lt "1.prems" have r: "r = \<lparr>pt_x = ?newX, pt_y = ?newY, accepted = True, path = None\<rparr>"
      by (subst (asm) elliptical_shrink.simps) (simp add: Let_def)
    have s: "snd (elliptical_shrink current lpFn thr nuX nuY loops theta thetaMin thetaMax g) = sdrop 0 g"
      using True lt by (subst elliptical_shrink.simps) (simp add: Let_def)
    have "Q loops theta thetaMin thetaMax g 0"
      unfolding Q_def using True s by (simp add: ellipse_candidate_0 lp_at_def r)
    moreover have "0 < 50 - loops" using lt by simp
    ultimately show ?thesis by blast
  next
    case rej: False
    then have c0: "\<not> exceeds (lp_at lpFn
        (ellipse_candidate current nuX nuY theta thetaMin thetaMax g 0)) thr"
      by (simp add: ellipse_candidate_0 lp_at_def)
    have eq: "elliptical_shrink current lpFn thr nuX nuY loops theta thetaMin thetaMax g
        = elliptical_shrink current lpFn thr nuX nuY (loops + 1) ?theta' ?tmin ?tmax (stl g)"
      using lt rej by (subst elliptical_shrink.simps) (simp add: rand_simp Let_def)
    have "\<exists>n < 50 - (loops + 1). Q (loops + 1) ?theta' ?tmin ?tmax (stl g) n"
      unfolding Q_def using "1.prems" unfolding eq
      by (rule "1.IH"[OF lt refl refl rej refl refl, rotated -1]) (simp add: rand_simp)
    then obtain n where n: "n < 50 - (loops + 1)" and q: "Q (loops + 1) ?theta' ?tmin ?tmax (stl g) n"
      by blast
    have "Q loops theta thetaMin thetaMax g (Suc n)"
      using q c0 unfolding Q_def eq
      by (simp only: all_less_Suc_shift ellipse_candidate_Suc sdrop.simps) simp
    moreover from n lt have "Suc n < 50 - loops" by simp
    ultimately show ?thesis by blast
  qed
  then show ?case unfolding Q_def .
qed

lemma slice_outcome:
  "case slice_bracket params current lpFn g of (thr, dx, dy, L, R, g3) \<Rightarrow>
     (case slice_shrink current lpFn thr dx dy 0 L R g3 of
        (None, g4) \<Rightarrow>
          (\<forall>n < 100. \<not> exceeds (lp_at lpFn (line_candidate current dx dy L R g3 n)) thr)
          \<and> stepSlice params current lpFn g = (rejected current, g4)
          \<and> g4 = sdrop 100 g3
      | (Some r, g4) \<Rightarrow>
          stepSlice params current lpFn g = (r, g4)
          \<and> (\<exists>n < 100.
                (\<forall>m < n. \<not> exceeds (lp_at lpFn (line_candidate current dx dy L R g3 m)) thr)
                \<and> exceeds (lp_at lpFn (line_candidate current dx dy L R g3 n)) thr
                \<and> g4 = sdrop (Suc n) g3
                \<and> (case shrunk_bracket L R g3 n of (L', R') \<Rightarrow>
                     r = \<lparr>pt_x = pt_x (line_candidate current dx dy L R g3 n),
                          pt_y = pt_y (line_candidate current dx dy L R g3 n),
                          accepted = True,
                          path = Some [\<lparr>pt_x = pt_x current + L' * dx,
                                         pt_y = pt_y current + L' * dy\<rparr>,
                                       \<lparr>pt_x = pt_x current + R' * dx,
                                         pt_y = pt_y current + R' * dy\<rparr>]\<rparr>)))"
proof -
  obtain thr dx dy L R g3 where b: "slice_bracket params current lpFn g = (thr, dx, dy, L, R, g3)"
    by (metis prod_cases3)
  obtain res g4 where s: "slice_shrink current lpFn thr dx dy 0 L R g3 = (res, g4)"
    by (metis prod.exhaust)
  show ?thesis
  proof (cases res)
    case None
    from slice_shrink_None_all[of current lpFn thr dx dy 0 L R g3] s None
    have "\<forall>n < 100. \<not> exceeds (lp_at lpFn (line_candidate current dx dy L R g3 n)) thr"
      by simp
    moreover from slice_shrink_exhausted s None have "g4 = sdrop 100 g3" by blast
    ultimately show ?thesis
      using b s None by (simp add: stepSlice_via_bracket)
  next
    case (Some r)
    from slice_shrink_Some_first[of current lpFn thr dx dy 0 L R g3 r] s Some
    have "\<exists>n < 100.
        (\<forall>m < n. \<not> exceeds (lp_at lpFn (line_candidate current dx dy L R g3 m)) thr)
        \<and> exceeds (lp_at lpFn (line_candidate current dx dy L R g3 n)) thr
        \<and> g4 = sdrop (Suc n) g3
        \<and> (case shrunk_bracket L R g3 n of (L', R') \<Rightarrow>
             r = \<lparr>pt_x = pt_x (line_candidate current dx dy L R g3 n),
                  pt_y = pt_y (line_candidate current dx dy L R g3 n),
                  accepted = True,
                  path = Some [\<lparr>pt_x = pt_x current + L' * dx,
                                 pt_y = pt_y current + L' * dy\<rparr>,
                               \<lparr>pt_x = pt_x current + R' * dx,
                                 pt_y = pt_y current + R' * dy\<rparr>]\<rparr>)"
      by simp
    then show ?thesis
      using b s Some by (simp add: stepSlice_via_bracket)
  qed
qed

lemma hitnrun_outcome:
  "case hitnrun_bracket current lpFn g of (thr, dx, dy, L, R, g2) \<Rightarrow>
     (case hitnrun_shrink current lpFn thr dx dy 0 L R g2 of
        (None, g3) \<Rightarrow>
          (\<forall>n < 50. \<not> exceeds (lp_at lpFn (line_candidate current dx dy L R g2 n)) thr)
          \<and> stepHitAndRun current lpFn g = (rejected current, g3)
          \<and> g3 = sdrop 50 g2
      | (Some r, g3) \<Rightarrow>
          stepHitAndRun current lpFn g = (r, g3)
          \<and> (\<exists>n < 50.
                (\<forall>m < n. \<not> exceeds (lp_at lpFn (line_candidate current dx dy L R g2 m)) thr)
                \<and> exceeds (lp_at lpFn (line_candidate current dx dy L R g2 n)) thr
                \<and> g3 = sdrop (Suc n) g2
                \<and> r = \<lparr>pt_x = pt_x (line_candidate current dx dy L R g2 n),
                        pt_y = pt_y (line_candidate current dx dy L R g2 n),
                        accepted = True, path = None\<rparr>))"
proof -
  obtain thr dx dy L R g2 where b: "hitnrun_bracket current lpFn g = (thr, dx, dy, L, R, g2)"
    by (metis prod_cases3)
  obtain res g3 where s: "hitnrun_shrink current lpFn thr dx dy 0 L R g2 = (res, g3)"
    by (metis prod.exhaust)
  show ?thesis
  proof (cases res)
    case None
    from hitnrun_shrink_None_all[of current lpFn thr dx dy 0 L R g2] s None
    have "\<forall>n < 50. \<not> exceeds (lp_at lpFn (line_candidate current dx dy L R g2 n)) thr"
      by simp
    moreover from hitnrun_shrink_exhausted s None have "g3 = sdrop 50 g2" by blast
    ultimately show ?thesis
      using b s None by (simp add: stepHitAndRun_via_bracket)
  next
    case (Some r)
    from hitnrun_shrink_Some_first[of current lpFn thr dx dy 0 L R g2 r] s Some
    have "\<exists>n < 50.
        (\<forall>m < n. \<not> exceeds (lp_at lpFn (line_candidate current dx dy L R g2 m)) thr)
        \<and> exceeds (lp_at lpFn (line_candidate current dx dy L R g2 n)) thr
        \<and> g3 = sdrop (Suc n) g2
        \<and> r = \<lparr>pt_x = pt_x (line_candidate current dx dy L R g2 n),
                pt_y = pt_y (line_candidate current dx dy L R g2 n),
                accepted = True, path = None\<rparr>"
      by simp
    then show ?thesis
      using b s Some by (simp add: stepHitAndRun_via_bracket)
  qed
qed

lemma elliptical_outcome:
  assumes "randn e = Some (nuX, e1)" and "randn e1 = Some (nuY, e2)"
  shows "case elliptical_bracket current lpFn e2 of (thr, theta, lo, hi, g4) \<Rightarrow>
     (case elliptical_shrink current lpFn thr nuX nuY 0 theta lo hi g4 of
        (None, g5) \<Rightarrow>
          (\<forall>n < 50. \<not> exceeds (lp_at lpFn
                        (ellipse_candidate current nuX nuY theta lo hi g4 n)) thr)
          \<and> stepElliptical current lpFn e = Some (rejected current, g5)
          \<and> g5 = sdrop 50 g4
      | (Some r, g5) \<Rightarrow>
          stepElliptical current lpFn e = Some (r, g5)
          \<and> (\<exists>n < 50.
                (\<forall>m < n. \<not> exceeds (lp_at lpFn
                              (ellipse_candidate current nuX nuY theta lo hi g4 m)) thr)
                \<and> exceeds (lp_at lpFn (ellipse_candidate current nuX nuY theta lo hi g4 n)) thr
                \<and> g5 = sdrop n g4
                \<and> r = \<lparr>pt_x = pt_x (ellipse_candidate current nuX nuY theta lo hi g4 n),
                        pt_y = pt_y (ellipse_candidate current nuX nuY theta lo hi g4 n),
                        accepted = True, path = None\<rparr>))"
proof -
  obtain thr theta lo hi g4
    where b: "elliptical_bracket current lpFn e2 = (thr, theta, lo, hi, g4)"
    by (metis prod_cases3)
  obtain res g5
    where s: "elliptical_shrink current lpFn thr nuX nuY 0 theta lo hi g4 = (res, g5)"
    by (metis prod.exhaust)
  show ?thesis
  proof (cases res)
    case None
    from elliptical_shrink_None_all[of current lpFn thr nuX nuY 0 theta lo hi g4] s None
    have "\<forall>n < 50. \<not> exceeds (lp_at lpFn
        (ellipse_candidate current nuX nuY theta lo hi g4 n)) thr"
      by simp
    moreover from elliptical_shrink_exhausted s None have "g5 = sdrop 50 g4" by blast
    ultimately show ?thesis
      using b s None by (simp add: stepElliptical_via_bracket[OF assms])
  next
    case (Some r)
    from elliptical_shrink_Some_first[of current lpFn thr nuX nuY 0 theta lo hi g4 r] s Some
    have "\<exists>n < 50.
        (\<forall>m < n. \<not> exceeds (lp_at lpFn
                      (ellipse_candidate current nuX nuY theta lo hi g4 m)) thr)
        \<and> exceeds (lp_at lpFn (ellipse_candidate current nuX nuY theta lo hi g4 n)) thr
        \<and> g5 = sdrop n g4
        \<and> r = \<lparr>pt_x = pt_x (ellipse_candidate current nuX nuY theta lo hi g4 n),
                pt_y = pt_y (ellipse_candidate current nuX nuY theta lo hi g4 n),
                accepted = True, path = None\<rparr>"
      by simp
    then show ?thesis
      using b s Some by (simp add: stepElliptical_via_bracket[OF assms])
  qed
qed

lemma slice_accepted_iff:
  "case slice_bracket params current lpFn g of (thr, dx, dy, L, R, g3) \<Rightarrow>
     thr = log_plus (lpFn (pt_x current) (pt_y current)) (Math_log (shd g))
     \<and> (accepted (fst (stepSlice params current lpFn g))
          \<longleftrightarrow> (\<exists>n < 100. exceeds (lp_at lpFn (line_candidate current dx dy L R g3 n)) thr))
     \<and> (if accepted (fst (stepSlice params current lpFn g))
        then exceeds (lp_at lpFn \<lparr>pt_x = pt_x (fst (stepSlice params current lpFn g)),
                                   pt_y = pt_y (fst (stepSlice params current lpFn g))\<rparr>) thr
        else fst (stepSlice params current lpFn g) = rejected current
             \<and> snd (stepSlice params current lpFn g) = sdrop 100 g3)"
proof -
  obtain thr dx dy L R g3 where b: "slice_bracket params current lpFn g = (thr, dx, dy, L, R, g3)"
    by (metis prod_cases3)
  then have thr: "thr = log_plus (lpFn (pt_x current) (pt_y current)) (Math_log (shd g))"
    by (simp add: slice_bracket_def Let_def)
  obtain res g4 where s: "slice_shrink current lpFn thr dx dy 0 L R g3 = (res, g4)"
    by (metis prod.exhaust)
  note out = slice_outcome[where params = params and current = current and lpFn = lpFn and g = g,
      unfolded b prod.case s]
  show ?thesis
  proof (cases res)
    case None
    with out show ?thesis
      unfolding b prod.case by (auto simp: thr rejected_def)
  next
    case (Some r)
    with out obtain n where step: "stepSlice params current lpFn g = (r, g4)"
      and n: "n < 100" "exceeds (lp_at lpFn (line_candidate current dx dy L R g3 n)) thr"
      and rc: "case shrunk_bracket L R g3 n of (L', R') \<Rightarrow>
                 r = \<lparr>pt_x = pt_x (line_candidate current dx dy L R g3 n),
                      pt_y = pt_y (line_candidate current dx dy L R g3 n),
                      accepted = True,
                      path = Some [\<lparr>pt_x = pt_x current + L' * dx,
                                     pt_y = pt_y current + L' * dy\<rparr>,
                                   \<lparr>pt_x = pt_x current + R' * dx,
                                     pt_y = pt_y current + R' * dy\<rparr>]\<rparr>"
      by auto
    obtain L' R' where "shrunk_bracket L R g3 n = (L', R')"
      by (metis prod.exhaust)
    with rc have r: "accepted r" "pt_x r = pt_x (line_candidate current dx dy L R g3 n)"
        "pt_y r = pt_y (line_candidate current dx dy L R g3 n)"
      by simp_all
    have "\<lparr>pt_x = pt_x r, pt_y = pt_y r\<rparr> = line_candidate current dx dy L R g3 n"
      using r(2,3) by simp
    with n r(1) show ?thesis
      unfolding b prod.case step by (auto simp: thr[symmetric])
  qed
qed

lemma hitnrun_accepted_iff:
  "case hitnrun_bracket current lpFn g of (thr, dx, dy, L, R, g2) \<Rightarrow>
     thr = log_plus (lpFn (pt_x current) (pt_y current)) (Math_log (shd (stl g)))
     \<and> (accepted (fst (stepHitAndRun current lpFn g))
          \<longleftrightarrow> (\<exists>n < 50. exceeds (lp_at lpFn (line_candidate current dx dy L R g2 n)) thr))
     \<and> (if accepted (fst (stepHitAndRun current lpFn g))
        then exceeds (lp_at lpFn \<lparr>pt_x = pt_x (fst (stepHitAndRun current lpFn g)),
                                   pt_y = pt_y (fst (stepHitAndRun current lpFn g))\<rparr>) thr
        else fst (stepHitAndRun current lpFn g) = rejected current
             \<and> snd (stepHitAndRun current lpFn g) = sdrop 50 g2)"
proof -
  obtain thr dx dy L R g2 where b: "hitnrun_bracket current lpFn g = (thr, dx, dy, L, R, g2)"
    by (metis prod_cases3)
  then have thr: "thr = log_plus (lpFn (pt_x current) (pt_y current)) (Math_log (shd (stl g)))"
    by (simp add: hitnrun_bracket_def Let_def)
  obtain res g3 where s: "hitnrun_shrink current lpFn thr dx dy 0 L R g2 = (res, g3)"
    by (metis prod.exhaust)
  note out = hitnrun_outcome[where current = current and lpFn = lpFn and g = g,
      unfolded b prod.case s]
  show ?thesis
  proof (cases res)
    case None
    with out show ?thesis
      unfolding b prod.case by (auto simp: thr rejected_def)
  next
    case (Some r)
    with out obtain n where step: "stepHitAndRun current lpFn g = (r, g3)"
      and n: "n < 50" "exceeds (lp_at lpFn (line_candidate current dx dy L R g2 n)) thr"
      and r: "accepted r" "pt_x r = pt_x (line_candidate current dx dy L R g2 n)"
        "pt_y r = pt_y (line_candidate current dx dy L R g2 n)"
      by auto
    have "\<lparr>pt_x = pt_x r, pt_y = pt_y r\<rparr> = line_candidate current dx dy L R g2 n"
      using r(2,3) by simp
    with n r(1) show ?thesis
      unfolding b prod.case step by (auto simp: thr[symmetric])
  qed
qed

lemma elliptical_accepted_iff:
  assumes "randn e = Some (nuX, e1)" and "randn e1 = Some (nuY, e2)"
  shows "case elliptical_bracket current lpFn e2 of (thr, theta, lo, hi, g4) \<Rightarrow>
     \<exists>r g'. stepElliptical current lpFn e = Some (r, g')
       \<and> thr = log_plus (lpFn (pt_x current) (pt_y current)) (Math_log (shd e2))
       \<and> (accepted r
            \<longleftrightarrow> (\<exists>n < 50. exceeds (lp_at lpFn
                               (ellipse_candidate current nuX nuY theta lo hi g4 n)) thr))
       \<and> (if accepted r then exceeds (lp_at lpFn \<lparr>pt_x = pt_x r, pt_y = pt_y r\<rparr>) thr
          else r = rejected current \<and> g' = sdrop 50 g4)"
proof -
  obtain thr theta lo hi g4
    where b: "elliptical_bracket current lpFn e2 = (thr, theta, lo, hi, g4)"
    by (metis prod_cases3)
  then have thr: "thr = log_plus (lpFn (pt_x current) (pt_y current)) (Math_log (shd e2))"
    by (simp add: elliptical_bracket_def Let_def)
  obtain res g5
    where s: "elliptical_shrink current lpFn thr nuX nuY 0 theta lo hi g4 = (res, g5)"
    by (metis prod.exhaust)
  note out = elliptical_outcome[OF assms, where current = current and lpFn = lpFn,
      unfolded b prod.case s]
  show ?thesis
  proof (cases res)
    case None
    with out show ?thesis
      unfolding b prod.case by (auto simp: thr rejected_def)
  next
    case (Some r)
    with out obtain n where step: "stepElliptical current lpFn e = Some (r, g5)"
      and n: "n < 50" "exceeds (lp_at lpFn (ellipse_candidate current nuX nuY theta lo hi g4 n)) thr"
      and r: "accepted r" "pt_x r = pt_x (ellipse_candidate current nuX nuY theta lo hi g4 n)"
        "pt_y r = pt_y (ellipse_candidate current nuX nuY theta lo hi g4 n)"
      by auto
    have "\<lparr>pt_x = pt_x r, pt_y = pt_y r\<rparr> = ellipse_candidate current nuX nuY theta lo hi g4 n"
      using r(2,3) by simp
    with n r(1) show ?thesis
      unfolding b prod.case step by (auto simp: thr[symmetric])
  qed
qed

lemma elliptical_gaussian_bracket:
  "elliptical_bracket \<lparr>pt_x = 0.1, pt_y = 0.1\<rparr> (LOG_PROBS gaussian) (sconst (1 / 2))
     = (Finite (- (1 / 100) + ln (1 / 2)), pi, - pi, pi, sconst (1 / 2))"
  by (simp add: elliptical_bracket_def Let_def PI2_def Math_log_def)

lemma elliptical_gaussian_first:
  "exceeds (lp_at (LOG_PROBS gaussian)
       (ellipse_candidate \<lparr>pt_x = 0.1, pt_y = 0.1\<rparr> (- 1) (- 1) pi (- pi) pi (sconst (1 / 2)) 0))
     (Finite (- (1 / 100) + ln (1 / 2)))"
proof -
  have "ln (1 / 2 :: real) < 0" by simp
  then show ?thesis
    by (simp add: ellipse_candidate_def lp_at_def)
qed

lemma slice_gaussian_bracket_any:
  "slice_bracket \<lparr>stepSize = 3, stepsPerFrame = 1, hmcSteps = 10, hmcEpsilon = 0.1\<rparr>
      \<lparr>pt_x = 0.1, pt_y = 0.1\<rparr> (LOG_PROBS gaussian) (3/4 ## 0 ## 1/2 ## g3)
     = (Finite (- (1 / 100) + ln (3 / 4)), 1, 0, - (3 / 2), 3 / 2, g3)"
  using ln_three_quarters
  by (simp add: slice_bracket_def Let_def PI2_def Math_log_def
        slice_stepout_L.simps[of _ _ _ _ _ _ 0] slice_stepout_R.simps[of _ _ _ _ _ _ 0] power2_eq_square)

lemma ln_three_quarters_upper: "ln (3 / 4 :: real) \<le> - (1 / 4)"
  using ln_le_minus_one[of "3 / 4 :: real"] by simp

lemma slice_gaussian_shrunk:
  "\<not> exceeds (lp_at (LOG_PROBS gaussian)
        (line_candidate \<lparr>pt_x = 0.1, pt_y = 0.1\<rparr> 1 0 (- (3 / 2)) (3 / 2) (1/6 ## 1/2 ## sconst 0) 0))
      (Finite (- (1 / 100) + ln (3 / 4)))"
  "exceeds (lp_at (LOG_PROBS gaussian)
        (line_candidate \<lparr>pt_x = 0.1, pt_y = 0.1\<rparr> 1 0 (- (3 / 2)) (3 / 2) (1/6 ## 1/2 ## sconst 0) (Suc 0)))
      (Finite (- (1 / 100) + ln (3 / 4)))"
  "line_candidate \<lparr>pt_x = 0.1, pt_y = 0.1\<rparr> 1 0 (- (3 / 2)) (3 / 2) (1/6 ## 1/2 ## sconst 0) (Suc 0)
     = \<lparr>pt_x = 0.35, pt_y = 0.1\<rparr>"
  "shrunk_bracket (- (3 / 2)) (3 / 2) (1/6 ## 1/2 ## sconst 0) (Suc 0) = (- 1, 3 / 2)"
  using ln_three_quarters ln_three_quarters_upper
  by (simp_all add: line_candidate_def lp_at_def power2_eq_square)

text \<open>
  C4, as amended. In each slice-family kernel (slice, hit-and-run, and elliptical with its
  two normal draws the Box-Muller values of the first non-zero uniform draws) the threshold
  is \<open>logp (current) + log u\<close>, and the result has \<open>accepted = true\<close> exactly when one of the
  candidates of the capped shrink run (100, 50, 50 candidates) has a log-density strictly
  above the threshold. An accepted result is a point whose log-density strictly exceeds
  the threshold; otherwise the shrink loop has used up its cap (all its draws are consumed)
  and the result is the unchanged current point with \<open>accepted = false\<close>.
\<close>

theorem slice_family_accepted_or_fallback:
  assumes "u1 \<noteq> 0" and "v1 \<noteq> 0" and "u2 \<noteq> 0" and "v2 \<noteq> 0"
    and "e = zeros_then k1 u1 (zeros_then k2 v1 (zeros_then k3 u2 (zeros_then k4 v2 e2)))"
  shows "(case slice_bracket params current lpFn g of (thr, dx, dy, L, R, g3) \<Rightarrow>
            thr = log_plus (lpFn (pt_x current) (pt_y current)) (Math_log (shd g))
            \<and> (accepted (fst (stepSlice params current lpFn g))
                 \<longleftrightarrow> (\<exists>n < 100. exceeds (lp_at lpFn (line_candidate current dx dy L R g3 n)) thr))
            \<and> (if accepted (fst (stepSlice params current lpFn g))
               then exceeds (lp_at lpFn \<lparr>pt_x = pt_x (fst (stepSlice params current lpFn g)),
                                          pt_y = pt_y (fst (stepSlice params current lpFn g))\<rparr>) thr
               else fst (stepSlice params current lpFn g) = rejected current
                    \<and> snd (stepSlice params current lpFn g) = sdrop 100 g3))
       \<and> (case hitnrun_bracket current lpFn g of (thr, dx, dy, L, R, g2) \<Rightarrow>
            thr = log_plus (lpFn (pt_x current) (pt_y current)) (Math_log (shd (stl g)))
            \<and> (accepted (fst (stepHitAndRun current lpFn g))
                 \<longleftrightarrow> (\<exists>n < 50. exceeds (lp_at lpFn (line_candidate current dx dy L R g2 n)) thr))
            \<and> (if accepted (fst (stepHitAndRun current lpFn g))
               then exceeds (lp_at lpFn \<lparr>pt_x = pt_x (fst (stepHitAndRun current lpFn g)),
                                          pt_y = pt_y (fst (stepHitAndRun current lpFn g))\<rparr>) thr
               else fst (stepHitAndRun current lpFn g) = rejected current
                    \<and> snd (stepHitAndRun current lpFn g) = sdrop 50 g2))
       \<and> (case elliptical_bracket current lpFn e2 of (thr, theta, lo, hi, g4) \<Rightarrow>
            \<exists>r g'. stepElliptical current lpFn e = Some (r, g')
              \<and> thr = log_plus (lpFn (pt_x current) (pt_y current)) (Math_log (shd e2))
              \<and> (accepted r
                   \<longleftrightarrow> (\<exists>n < 50. exceeds (lp_at lpFn
                                      (ellipse_candidate current (box_muller u1 v1) (box_muller u2 v2)
                                         theta lo hi g4 n)) thr))
              \<and> (if accepted r then exceeds (lp_at lpFn \<lparr>pt_x = pt_x r, pt_y = pt_y r\<rparr>) thr
                 else r = rejected current \<and> g' = sdrop 50 g4))"
proof -
  have r1: "randn e = Some (box_muller u1 v1, zeros_then k3 u2 (zeros_then k4 v2 e2))"
    unfolding assms(5) by (rule randn_box_muller[OF assms(1,2)])
  have r2: "randn (zeros_then k3 u2 (zeros_then k4 v2 e2)) = Some (box_muller u2 v2, e2)"
    by (rule randn_box_muller[OF assms(3,4)])
  show ?thesis
    by (intro conjI slice_accepted_iff hitnrun_accepted_iff elliptical_accepted_iff[OF r1 r2])
qed

theorem slice_family_accepted_or_fallback_witness:
  "\<exists>r g'. stepElliptical \<lparr>pt_x = 0.1, pt_y = 0.1\<rparr> (LOG_PROBS gaussian)
             (0 ## exp (- (1 / 2)) ## 1 / 2 ## exp (- (1 / 2)) ## 0 ## 0 ## 1 / 2 ## sconst (1 / 2))
             = Some (r, g')
      \<and> accepted r
      \<and> exceeds (lp_at (LOG_PROBS gaussian) \<lparr>pt_x = pt_x r, pt_y = pt_y r\<rparr>)
           (Finite (- (1 / 100) + ln (1 / 2)))"
proof -
  have nz: "exp (- (1 / 2) :: real) \<noteq> 0" "(1 / 2 :: real) \<noteq> 0" by simp_all
  have e: "0 ## exp (- (1 / 2)) ## 1 / 2 ## exp (- (1 / 2)) ## 0 ## 0 ## 1 / 2 ## sconst (1 / 2)
      = zeros_then 1 (exp (- (1 / 2))) (zeros_then 0 (1 / 2) (zeros_then 0 (exp (- (1 / 2)))
          (zeros_then 2 (1 / 2) (sconst (1 / 2 :: real)))))"
    by (simp add: zeros_then_def numeral_2_eq_2)
  note spec = slice_family_accepted_or_fallback[OF nz nz e,
      where current = "\<lparr>pt_x = 0.1, pt_y = 0.1\<rparr>" and lpFn = "LOG_PROBS gaussian",
      THEN conjunct2, THEN conjunct2,
      unfolded elliptical_gaussian_bracket prod.case box_muller_minus_one]
  then obtain r g' where step: "stepElliptical \<lparr>pt_x = 0.1, pt_y = 0.1\<rparr> (LOG_PROBS gaussian)
        (0 ## exp (- (1 / 2)) ## 1 / 2 ## exp (- (1 / 2)) ## 0 ## 0 ## 1 / 2 ## sconst (1 / 2))
        = Some (r, g')"
    and iff: "accepted r \<longleftrightarrow> (\<exists>n < 50. exceeds (lp_at (LOG_PROBS gaussian)
        (ellipse_candidate \<lparr>pt_x = 0.1, pt_y = 0.1\<rparr> (- 1) (- 1) pi (- pi) pi (sconst (1 / 2)) n))
        (Finite (- (1 / 100) + ln (1 / 2))))"
    and res: "if accepted r
        then exceeds (lp_at (LOG_PROBS gaussian) \<lparr>pt_x = pt_x r, pt_y = pt_y r\<rparr>)
               (Finite (- (1 / 100) + ln (1 / 2)))
        else r = rejected \<lparr>pt_x = 0.1, pt_y = 0.1\<rparr> \<and> g' = sdrop 50 (sconst (1 / 2))"
    by blast
  have acc: "accepted r"
    unfolding iff using elliptical_gaussian_first by (intro exI[of _ 0]) simp
  with res have "exceeds (lp_at (LOG_PROBS gaussian) \<lparr>pt_x = pt_x r, pt_y = pt_y r\<rparr>)
      (Finite (- (1 / 100) + ln (1 / 2)))"
    by simp
  with step acc show ?thesis by blast
qed

text \<open>
  C4 as stated fails: from the seed point \<open>(0.1, 0.1)\<close> on the \<open>gaussian\<close> target, with the
  draws \<open>0\<close> (direction), \<open>3/4\<close> (threshold) and then \<open>0\<close> for every shrink draw, the
  hit-and-run kernel tries the left endpoint \<open>-1\<close> fifty times and returns
  \<open>accepted = false\<close>.
\<close>

theorem hitnrun_reports_rejection:
  "\<not> accepted (fst (stepHitAndRun \<lparr>pt_x = 0.1, pt_y = 0.1\<rparr> (LOG_PROBS gaussian)
                      (0 ## 3/4 ## sconst 0)))"
proof -
  have "hitnrun_shrink \<lparr>pt_x = 0.1, pt_y = 0.1\<rparr> (LOG_PROBS gaussian)
          (Finite (- (1 / 100) + ln (3 / 4))) 1 0 0 (- 1) 1 (sconst 0) = (None, sconst 0)"
    using ln_three_quarters by (intro hitnrun_shrink_zeros) simp_all
  then show ?thesis
    by (simp add: stepHitAndRun_via_bracket hitnrun_gaussian_bracket rejected_def)
qed

text \<open>
  C5, as amended. Every loop of the three loop-based kernels stops within its cap: the slice
  step-out moves each endpoint at most 100 times and the hit-and-run step-out doubles each
  at most 20 times; the shrink loops take at most 100 (slice), 50 (elliptical) and 50
  (hit-and-run) draws. So a slice step and a hit-and-run step return for every input and
  every random sequence, after at most 103 and 52 draws; an elliptical step returns, at most
  52 draws after its two normal draws, for every input and every random sequence on which
  its two \<open>randn\<close> calls return (\<open>randn\<close> redraws, without a cap, while the uniform draw is
  \<open>0\<close>). When a shrink loop uses up its cap, the kernel returns the current point's
  coordinates with \<open>accepted = false\<close> as an ordinary result.
\<close>

theorem capped_loops_and_fallback:
  assumes "randn e = Some (nuX, e1)" and "randn e1 = Some (nuY, e2)"
  shows "(\<exists>n \<le> 100. slice_stepout_L params current lpFn thr dx dy 0 L = L - real n * stepSize params)
    \<and> (\<exists>n \<le> 100. slice_stepout_R params current lpFn thr dx dy 0 R = R + real n * stepSize params)
    \<and> (\<exists>n \<le> 100. snd (slice_shrink current lpFn thr dx dy 0 L R h) = sdrop n h)
    \<and> (\<exists>n \<le> 50. snd (elliptical_shrink current lpFn thr nuX nuY 0 theta thetaMin thetaMax h)
                    = sdrop n h)
    \<and> (\<exists>n \<le> 20. hitnrun_stepout_L current lpFn thr dx dy 0 L = L * 2 ^ n)
    \<and> (\<exists>n \<le> 20. hitnrun_stepout_R current lpFn thr dx dy 0 R = R * 2 ^ n)
    \<and> (\<exists>n \<le> 50. snd (hitnrun_shrink current lpFn thr dx dy 0 L R h) = sdrop n h)
    \<and> (\<exists>r n. n \<le> 103 \<and> kernel_step slice params current lpFn gradFn g = Some (r, sdrop n g))
    \<and> (\<exists>r n. n \<le> 52 \<and> kernel_step hitnrun params current lpFn gradFn g = Some (r, sdrop n g))
    \<and> (\<exists>r n. n \<le> 52 \<and> kernel_step elliptical params current lpFn gradFn e = Some (r, sdrop n e2))
    \<and> (case slice_bracket params current lpFn g of (thr, dx, dy, L, R, g3) \<Rightarrow>
          fst (slice_shrink current lpFn thr dx dy 0 L R g3) = None \<longrightarrow>
            stepSlice params current lpFn g = (rejected current, sdrop 100 g3))
    \<and> (case hitnrun_bracket current lpFn g of (thr, dx, dy, L, R, g2) \<Rightarrow>
          fst (hitnrun_shrink current lpFn thr dx dy 0 L R g2) = None \<longrightarrow>
            stepHitAndRun current lpFn g = (rejected current, sdrop 50 g2))
    \<and> (case elliptical_bracket current lpFn e2 of (thr, theta, thetaMin, thetaMax, g4) \<Rightarrow>
          fst (elliptical_shrink current lpFn thr nuX nuY 0 theta thetaMin thetaMax g4) = None \<longrightarrow>
            stepElliptical current lpFn e = Some (rejected current, sdrop 50 g4))"
proof (intro conjI)
  show "\<exists>n \<le> 100. slice_stepout_L params current lpFn thr dx dy 0 L = L - real n * stepSize params"
    using slice_stepout_L_bound[of 0] by simp
  show "\<exists>n \<le> 100. slice_stepout_R params current lpFn thr dx dy 0 R = R + real n * stepSize params"
    using slice_stepout_R_bound[of 0] by simp
  show "\<exists>n \<le> 100. snd (slice_shrink current lpFn thr dx dy 0 L R h) = sdrop n h"
    using slice_shrink_draws[of 0] by simp
  show "\<exists>n \<le> 50. snd (elliptical_shrink current lpFn thr nuX nuY 0 theta thetaMin thetaMax h) = sdrop n h"
    using elliptical_shrink_draws[of 0] by simp
  show "\<exists>n \<le> 20. hitnrun_stepout_L current lpFn thr dx dy 0 L = L * 2 ^ n"
    using hitnrun_stepout_L_bound[of 0] by simp
  show "\<exists>n \<le> 20. hitnrun_stepout_R current lpFn thr dx dy 0 R = R * 2 ^ n"
    using hitnrun_stepout_R_bound[of 0] by simp
  show "\<exists>n \<le> 50. snd (hitnrun_shrink current lpFn thr dx dy 0 L R h) = sdrop n h"
    using hitnrun_shrink_draws[of 0] by simp
qed (rule slice_terminates hitnrun_terminates elliptical_terminates[OF assms]
      slice_fallback hitnrun_fallback elliptical_fallback[OF assms])+

theorem capped_loops_and_fallback_witness:
  "stepSlice \<lparr>stepSize = 3, stepsPerFrame = 1, hmcSteps = 10, hmcEpsilon = 0.1\<rparr>
      \<lparr>pt_x = 0.1, pt_y = 0.1\<rparr> (LOG_PROBS gaussian) (3/4 ## 0 ## 1/2 ## sconst 0)
     = (rejected \<lparr>pt_x = 0.1, pt_y = 0.1\<rparr>, sdrop 100 (sconst 0))
   \<and> (\<exists>r n. n \<le> 52 \<and>
         kernel_step elliptical \<lparr>stepSize = 3, stepsPerFrame = 1, hmcSteps = 10, hmcEpsilon = 0.1\<rparr>
           \<lparr>pt_x = 0.1, pt_y = 0.1\<rparr> (LOG_PROBS gaussian) (GRADIENTS gaussian)
           (1/2 ## 1/4 ## 1/2 ## 1/4 ## sconst (1/2)) = Some (r, sdrop n (sconst (1/2))))"
proof -
  have r1: "randn (1/2 ## 1/4 ## 1/2 ## 1/4 ## sconst (1/2)) = Some (0, 1/2 ## 1/4 ## sconst (1/2))"
    by (rule randn_quarter) simp
  have r2: "randn (1/2 ## 1/4 ## sconst (1/2)) = Some (0, sconst (1/2))"
    by (rule randn_quarter) simp
  note caps = capped_loops_and_fallback[OF r1 r2,
      where params = "\<lparr>stepSize = 3, stepsPerFrame = 1, hmcSteps = 10, hmcEpsilon = 0.1\<rparr>"
        and current = "\<lparr>pt_x = 0.1, pt_y = 0.1\<rparr>" and lpFn = "LOG_PROBS gaussian"
        and gradFn = "GRADIENTS gaussian" and g = "3/4 ## 0 ## 1/2 ## sconst 0"]
  have fallback:
    "case slice_bracket \<lparr>stepSize = 3, stepsPerFrame = 1, hmcSteps = 10, hmcEpsilon = 0.1\<rparr>
            \<lparr>pt_x = 0.1, pt_y = 0.1\<rparr> (LOG_PROBS gaussian) (3/4 ## 0 ## 1/2 ## sconst 0) of
       (thr, dx, dy, L, R, g3) \<Rightarrow>
         fst (slice_shrink \<lparr>pt_x = 0.1, pt_y = 0.1\<rparr> (LOG_PROBS gaussian) thr dx dy 0 L R g3) = None
         \<longrightarrow> stepSlice \<lparr>stepSize = 3, stepsPerFrame = 1, hmcSteps = 10, hmcEpsilon = 0.1\<rparr>
               \<lparr>pt_x = 0.1, pt_y = 0.1\<rparr> (LOG_PROBS gaussian) (3/4 ## 0 ## 1/2 ## sconst 0)
             = (rejected \<lparr>pt_x = 0.1, pt_y = 0.1\<rparr>, sdrop 100 g3)"
    by (rule caps[THEN conjunct2, THEN conjunct2, THEN conjunct2, THEN conjunct2,
          THEN conjunct2, THEN conjunct2, THEN conjunct2, THEN conjunct2, THEN conjunct2,
          THEN conjunct2, THEN conjunct1])
  have returns:
    "\<exists>r n. n \<le> 52 \<and>
       kernel_step elliptical \<lparr>stepSize = 3, stepsPerFrame = 1, hmcSteps = 10, hmcEpsilon = 0.1\<rparr>
         \<lparr>pt_x = 0.1, pt_y = 0.1\<rparr> (LOG_PROBS gaussian) (GRADIENTS gaussian)
         (1/2 ## 1/4 ## 1/2 ## 1/4 ## sconst (1/2)) = Some (r, sdrop n (sconst (1/2)))"
    by (rule caps[THEN conjunct2, THEN conjunct2, THEN conjunct2, THEN conjunct2,
          THEN conjunct2, THEN conjunct2, THEN conjunct2, THEN conjunct2, THEN conjunct2,
          THEN conjunct1])
  from fallback have "stepSlice \<lparr>stepSize = 3, stepsPerFrame = 1, hmcSteps = 10, hmcEpsilon = 0.1\<rparr>
      \<lparr>pt_x = 0.1, pt_y = 0.1\<rparr> (LOG_PROBS gaussian) (3/4 ## 0 ## 1/2 ## sconst 0)
     = (rejected \<lparr>pt_x = 0.1, pt_y = 0.1\<rparr>, sdrop 100 (sconst 0))"
    unfolding slice_gaussian_bracket using slice_gaussian_exhausted by simp
  with returns show ?thesis by blast
qed

text \<open>
  C5 as stated fails: on the random sequence that is \<open>0\<close> forever, the first \<open>randn\<close> call
  of the elliptical kernel never leaves its \<open>while (u === 0)\<close> loop, so the step does not
  return.
\<close>

theorem elliptical_never_returns_on_zero_draws:
  "kernel_step elliptical \<lparr>stepSize = 0.5, stepsPerFrame = 1, hmcSteps = 10, hmcEpsilon = 0.1\<rparr>
      \<lparr>pt_x = 0.1, pt_y = 0.1\<rparr> (LOG_PROBS gaussian) (GRADIENTS gaussian) (sconst 0) = None"
  by (simp add: stepElliptical_def randn_zeros)

text \<open>
  C6, as amended. The slice kernel moves along the direction \<open>(cos theta, sin theta)\<close>,
  \<open>theta\<close> its second draw times \<open>2 pi\<close>. When it uses up its shrink cap (all 100 candidates
  at or below the threshold, 100 draws consumed) it returns the unchanged current point with
  \<open>accepted = false\<close> and no path, so the stepping loop stores \<open>currentPath = null\<close>.
  Otherwise it returns the first candidate above the threshold, with \<open>accepted = true\<close>, and
  reports as \<open>path\<close> the two endpoints \<open>current + L' (cos theta, sin theta)\<close> and
  \<open>current + R' (cos theta, sin theta)\<close> of the bracket \<open>[L', R']\<close> as the rejected candidates
  before it have shrunk it.
\<close>

theorem slice_path_only_on_acceptance:
  "case slice_bracket params current lpFn g of (thr, dx, dy, L, R, g3) \<Rightarrow>
     dx = cos (shd (stl g) * PI2) \<and> dy = sin (shd (stl g) * PI2)
     \<and> (case slice_shrink current lpFn thr dx dy 0 L R g3 of
        (None, g4) \<Rightarrow>
          (\<forall>n < 100. \<not> exceeds (lp_at lpFn (line_candidate current dx dy L R g3 n)) thr)
          \<and> stepSlice params current lpFn g
            = (\<lparr>pt_x = pt_x current, pt_y = pt_y current, accepted = False, path = None\<rparr>, g4)
          \<and> g4 = sdrop 100 g3
          \<and> currentPath (store_result st (fst (stepSlice params current lpFn g))) = None
      | (Some r, g4) \<Rightarrow>
          stepSlice params current lpFn g = (r, g4)
          \<and> (\<exists>n < 100.
                (\<forall>m < n. \<not> exceeds (lp_at lpFn (line_candidate current dx dy L R g3 m)) thr)
                \<and> exceeds (lp_at lpFn (line_candidate current dx dy L R g3 n)) thr
                \<and> g4 = sdrop (Suc n) g3
                \<and> (case shrunk_bracket L R g3 n of (L', R') \<Rightarrow>
                     r = \<lparr>pt_x = pt_x (line_candidate current dx dy L R g3 n),
                          pt_y = pt_y (line_candidate current dx dy L R g3 n),
                          accepted = True,
                          path = Some [\<lparr>pt_x = pt_x current + L' * dx,
                                         pt_y = pt_y current + L' * dy\<rparr>,
                                       \<lparr>pt_x = pt_x current + R' * dx,
                                         pt_y = pt_y current + R' * dy\<rparr>]\<rparr>)))"
proof -
  obtain thr dx dy L R g3 where b: "slice_bracket params current lpFn g = (thr, dx, dy, L, R, g3)"
    by (metis prod_cases3)
  then have dir: "dx = cos (shd (stl g) * PI2)" "dy = sin (shd (stl g) * PI2)"
    by (simp_all add: slice_bracket_def Let_def)
  obtain res g4 where s: "slice_shrink current lpFn thr dx dy 0 L R g3 = (res, g4)"
    by (metis prod.exhaust)
  from slice_outcome[where params = params and current = current and lpFn = lpFn and g = g]
  show ?thesis
    unfolding b prod.case s
    by (cases res) (simp_all add: dir[symmetric] rejected_def store_result_def Let_def)
qed

theorem slice_path_only_on_acceptance_witness:
  "stepSlice \<lparr>stepSize = 3, stepsPerFrame = 1, hmcSteps = 10, hmcEpsilon = 0.1\<rparr>
      \<lparr>pt_x = 0.1, pt_y = 0.1\<rparr> (LOG_PROBS gaussian) (3/4 ## 0 ## 1/2 ## 1/6 ## 1/2 ## sconst 0)
     = (\<lparr>pt_x = 0.35, pt_y = 0.1, accepted = True,
          path = Some [\<lparr>pt_x = - 0.9, pt_y = 0.1\<rparr>, \<lparr>pt_x = 1.6, pt_y = 0.1\<rparr>]\<rparr>, sconst 0)"
proof -
  let ?P = "\<lparr>stepSize = 3, stepsPerFrame = 1, hmcSteps = 10, hmcEpsilon = 0.1\<rparr>"
  let ?c = "\<lparr>pt_x = 0.1, pt_y = 0.1\<rparr> :: Point"
  let ?g3 = "1/6 ## 1/2 ## sconst (0::real)"
  let ?thr = "Finite (- (1 / 100) + ln (3 / 4))"
  let ?cand = "\<lambda>n. line_candidate ?c 1 0 (- (3 / 2)) (3 / 2) ?g3 n"
  obtain res g4 where s: "slice_shrink ?c (LOG_PROBS gaussian) ?thr 1 0 0 (- (3 / 2)) (3 / 2) ?g3
      = (res, g4)"
    by (metis prod.exhaust)
  note spec = slice_path_only_on_acceptance[where params = ?P and current = ?c
      and lpFn = "LOG_PROBS gaussian" and g = "3/4 ## 0 ## 1/2 ## ?g3",
      unfolded slice_gaussian_bracket_any prod.case s]
  show ?thesis
  proof (cases res)
    case None
    with spec have "\<forall>n < 100. \<not> exceeds (lp_at (LOG_PROBS gaussian) (?cand n)) ?thr"
      by simp
    then have "\<not> exceeds (lp_at (LOG_PROBS gaussian) (?cand (Suc 0))) ?thr"
      by simp
    with slice_gaussian_shrunk(2) show ?thesis by contradiction
  next
    case (Some r)
    with spec obtain n where step: "stepSlice ?P ?c (LOG_PROBS gaussian) (3/4 ## 0 ## 1/2 ## ?g3) = (r, g4)"
      and before: "\<forall>m < n. \<not> exceeds (lp_at (LOG_PROBS gaussian) (?cand m)) ?thr"
      and at: "exceeds (lp_at (LOG_PROBS gaussian) (?cand n)) ?thr"
      and rest: "g4 = sdrop (Suc n) ?g3"
      and r: "case shrunk_bracket (- (3 / 2)) (3 / 2) ?g3 n of (L', R') \<Rightarrow>
                r = \<lparr>pt_x = pt_x (?cand n), pt_y = pt_y (?cand n), accepted = True,
                     path = Some [\<lparr>pt_x = pt_x ?c + L' * 1, pt_y = pt_y ?c + L' * 0\<rparr>,
                                  \<lparr>pt_x = pt_x ?c + R' * 1, pt_y = pt_y ?c + R' * 0\<rparr>]\<rparr>"
      by auto
    have "n \<noteq> 0"
    proof
      assume "n = 0"
      with at slice_gaussian_shrunk(1) show False by blast
    qed
    moreover have "\<not> Suc 0 < n"
    proof
      assume "Suc 0 < n"
      with before slice_gaussian_shrunk(2) show False by blast
    qed
    ultimately have n: "n = Suc 0" by simp
    from r rest show ?thesis
      unfolding step n slice_gaussian_shrunk by simp
  qed
qed

text \<open>
  C6 as stated fails: from \<open>(0.1, 0.1)\<close> on the \<open>gaussian\<close> target with \<open>stepSize = 3\<close>, the
  draws \<open>3/4\<close> (threshold), \<open>0\<close> (angle), \<open>1/2\<close> (bracket offset) and then \<open>0\<close> for every
  shrink draw use up the cap on the bracket \<open>[-1.5, 1.5]\<close>, and the result carries no path.
\<close>

theorem slice_exhausted_without_path:
  "stepSlice \<lparr>stepSize = 3, stepsPerFrame = 1, hmcSteps = 10, hmcEpsilon = 0.1\<rparr>
      \<lparr>pt_x = 0.1, pt_y = 0.1\<rparr> (LOG_PROBS gaussian) (3/4 ## 0 ## 1/2 ## sconst 0)
     = (\<lparr>pt_x = 0.1, pt_y = 0.1, accepted = False, path = None\<rparr>, sconst 0)"
  using slice_gaussian_exhausted
  by (simp add: stepSlice_via_bracket slice_gaussian_bracket rejected_def)

section \<open>Hamiltonian Monte Carlo\<close>






section \<open>The stepping loop: history and position\<close>

lemma most_recent_append:
  "most_recent n (most_recent n xs @ ys) = most_recent n (xs @ ys)"
proof (cases "length xs \<le> n")
  case True
  then show ?thesis by (simp add: most_recent_def)
next
  case False
  then have "length xs + length ys - (length xs - n + n) + (length xs - n)
      = length xs + length ys - n"
    by simp
  with False show ?thesis by (simp add: most_recent_def)
qed

lemma store_result_fields:
  "st_x (store_result st r) = pt_x r" "st_y (store_result st r) = pt_y r"
  "currentPath (store_result st r) = path r"
  by (simp_all add: store_result_def Let_def)

lemma store_result_fifo:
  assumes "length (samples st) \<le> 2000"
  shows "samples (store_result st r)
       = (if length (samples st) < 2000 then samples st @ [sample_of r]
          else tl (samples st) @ [sample_of r])"
  using assms by (cases "samples st") (auto simp: store_result_def Let_def sample_of_def)

lemma store_result_recent:
  assumes "length (samples st) \<le> 2000"
  shows "samples (store_result st r) = most_recent 2000 (samples st @ [sample_of r])"
  using assms
  by (cases "samples st") (auto simp: store_result_fifo most_recent_def drop_Cons')

lemma store_result_length:
  "length (samples st) \<le> 2000 \<Longrightarrow> length (samples (store_result st r)) \<le> 2000"
  by (simp add: store_result_recent most_recent_def)

lemma foldl_store_length:
  "length (samples st) \<le> 2000 \<Longrightarrow> length (samples (foldl store_result st rs)) \<le> 2000"
  by (induction rs arbitrary: st) (simp_all add: store_result_length)

lemma foldl_store_recent:
  "length (samples st) \<le> 2000 \<Longrightarrow>
     samples (foldl store_result st rs) = most_recent 2000 (samples st @ map sample_of rs)"
proof (induction rs arbitrary: st)
  case Nil
  then show ?case by (simp add: most_recent_def)
next
  case (Cons r rs)
  have "samples (foldl store_result (store_result st r) rs)
      = most_recent 2000 (most_recent 2000 (samples st @ [sample_of r]) @ map sample_of rs)"
    using Cons.IH[OF store_result_length[OF Cons.prems]] store_result_recent[OF Cons.prems]
    by simp
  then show ?case by (simp add: most_recent_append)
qed

lemma store_result_last:
  "samples (store_result st r) \<noteq> [] \<and> last (samples (store_result st r)) = sample_of r"
  by (cases "samples st") (auto simp: store_result_def Let_def sample_of_def)

lemma foldl_store_last:
  assumes "rs \<noteq> []"
  shows "st_x (foldl store_result st rs) = pt_x (last rs)
       \<and> st_y (foldl store_result st rs) = pt_y (last rs)
       \<and> samples (foldl store_result st rs) \<noteq> []
       \<and> last (samples (foldl store_result st rs)) = sample_of (last rs)"
  using assms
proof (induction rs arbitrary: st rule: rev_induct)
  case Nil
  then show ?case by simp
next
  case (snoc r rs)
  show ?case
    by (simp add: store_result_fields store_result_last)
qed

text \<open>Every kernel step returns, after finitely many draws, whenever its \<open>randn\<close> calls can:
  the slice and hit-and-run kernels always, the others on a source in which non-zero draws keep
  occurring. So does the stepping loop, and what it returns is the fold of its kernel results.\<close>

lemma kernel_step_returns:
  assumes "algo \<in> {slice, hitnrun} \<or> (\<forall>n. \<exists>m. g !! (n + m) \<noteq> 0)"
  shows "\<exists>r j. kernel_step algo params current lpFn gradFn g = Some (r, sdrop j g)"
proof (cases algo)
  case slice
  with slice_terminates[of params current lpFn gradFn g] show ?thesis by blast
next
  case hitnrun
  with hitnrun_terminates[of params current lpFn gradFn g] show ?thesis by blast
next
  case rwm
  with assms have "\<forall>n. \<exists>m. g !! (n + m) \<noteq> 0" by simp
  from two_randn_return[OF this] obtain x y g1 j
    where "randn g = Some (x, g1)" "randn g1 = Some (y, sdrop j g)" by blast
  then have "\<exists>r. stepRWM params current lpFn g = Some (r, sdrop (Suc j) g)"
    by (simp add: stepRWM_def Let_def Math_random_simp)
  with rwm show ?thesis by (auto intro!: exI[of _ "Suc j"])
next
  case mh
  with assms have "\<forall>n. \<exists>m. g !! (n + m) \<noteq> 0" by simp
  from two_randn_return[OF this] obtain x y g1 j
    where "randn g = Some (x, g1)" "randn g1 = Some (y, sdrop j g)" by blast
  then have "\<exists>r. stepMH current lpFn g = Some (r, sdrop (Suc j) g)"
    by (simp add: stepMH_def Let_def Math_random_simp)
  with mh show ?thesis by (auto intro!: exI[of _ "Suc j"])
next
  case elliptical
  with assms have "\<forall>n. \<exists>m. g !! (n + m) \<noteq> 0" by simp
  from two_randn_return[OF this] obtain x y g1 j
    where r: "randn g = Some (x, g1)" "randn g1 = Some (y, sdrop j g)" by blast
  from elliptical_terminates[OF r, of params current lpFn gradFn] show ?thesis
    using elliptical by auto
next
  case hmc
  with assms have "\<forall>n. \<exists>m. g !! (n + m) \<noteq> 0" by simp
  from two_randn_return[OF this] obtain x y g1 j
    where "randn g = Some (x, g1)" "randn g1 = Some (y, sdrop j g)" by blast
  then have "\<exists>r. stepHMC params current lpFn gradFn g = Some (r, sdrop (Suc j) g)"
    by (simp add: stepHMC_def Let_def Math_random_simp split: prod.splits)
  with hmc show ?thesis by (auto intro!: exI[of _ "Suc j"])
qed

lemma animate_loop_returns:
  "algo \<in> {slice, hitnrun} \<or> (\<forall>n. \<exists>m. g !! (n + m) \<noteq> 0) \<Longrightarrow>
     \<exists>res. animate_loop algo target params k st accepts g = Some res"
proof (induction algo target params k st accepts g rule: animate_loop.induct)
  case (1 algo target params k st accepts g)
  show ?case
  proof (cases "k < stepsPerFrame params")
    case False
    then show ?thesis by (subst animate_loop.simps) simp
  next
    case True
    let ?curr = "\<lparr>pt_x = st_x st, pt_y = st_y st\<rparr>"
    from kernel_step_returns[OF "1.prems"] obtain r j
      where ks: "kernel_step algo params ?curr (LOG_PROBS target) (GRADIENTS target) g
                   = Some (r, sdrop j g)" by blast
    have keep: "algo \<in> {slice, hitnrun} \<or> (\<forall>n. \<exists>m. sdrop j g !! (n + m) \<noteq> 0)"
      using "1.prems" recurs_sdrop[of g j] by blast
    from "1.IH"[OF True refl ks refl keep] obtain res
      where "animate_loop algo target params (k + 1) (store_result st r)
               (if accepted r then accepts + 1 else accepts) (sdrop j g) = Some res" by blast
    then show ?thesis
      using True ks by (subst animate_loop.simps) (cases res, simp add: Let_def)
  qed
qed

lemma animate_loop_run:
  "animate_loop algo target params k st accepts g = Some (st', accepts', g') \<Longrightarrow>
     \<exists>tr. length tr = nat (stepsPerFrame params - k)
       \<and> kernel_run algo target params st g tr
       \<and> st' = foldl store_result st (map fst tr)
       \<and> g' = last (g # map snd tr)
       \<and> accepts' = accepts + length (filter (\<lambda>x. accepted (fst x)) tr)"
proof (induction algo target params k st accepts g rule: animate_loop.induct)
  case (1 algo target params k st accepts g)
  show ?case
  proof (cases "k < stepsPerFrame params")
    case False
    with "1.prems" have "st' = st" "g' = g" "accepts' = accepts"
      by (subst (asm) animate_loop.simps; simp)+
    with False show ?thesis by (intro exI[of _ "[]"]) simp
  next
    case True
    let ?curr = "\<lparr>pt_x = st_x st, pt_y = st_y st\<rparr>"
    from "1.prems" True obtain result g1
      where ks: "kernel_step algo params ?curr (LOG_PROBS target) (GRADIENTS target) g = Some (result, g1)"
        and rec: "animate_loop algo target params (k + 1) (store_result st result)
                    (if accepted result then accepts + 1 else accepts) g1 = Some (st', accepts', g')"
      by (subst (asm) animate_loop.simps) (auto simp: Let_def split: option.splits)
    from "1.IH"[OF True refl ks refl rec]
    obtain tr where tr: "length tr = nat (stepsPerFrame params - (k + 1))"
      "kernel_run algo target params (store_result st result) g1 tr"
      "st' = foldl store_result (store_result st result) (map fst tr)"
      "g' = last (g1 # map snd tr)"
      "accepts' = (if accepted result then accepts + 1 else accepts)
                    + length (filter (\<lambda>x. accepted (fst x)) tr)"
      by blast
    have "length ((result, g1) # tr) = nat (stepsPerFrame params - k)"
      using tr(1) True by simp
    moreover have "kernel_run algo target params st g ((result, g1) # tr)"
      using ks tr(2) by simp
    moreover have "st' = foldl store_result st (map fst ((result, g1) # tr))"
      using tr(3) by simp
    moreover have "g' = last (g # map snd ((result, g1) # tr))"
      using tr(4) by simp
    moreover have "accepts' = accepts + length (filter (\<lambda>x. accepted (fst x)) ((result, g1) # tr))"
      using tr(5) by simp
    ultimately show ?thesis by blast
  qed
qed

lemma rwm_gaussian_step:
  assumes "- 2 < LOG_PROBS gaussian (x - 1 / 2) (y - 1 / 2) - LOG_PROBS gaussian x y"
  shows "stepRWM \<lparr>stepSize = 0.5, stepsPerFrame = 2, hmcSteps = 10, hmcEpsilon = 0.1\<rparr>
      \<lparr>pt_x = x, pt_y = y\<rparr> (LOG_PROBS gaussian)
      (exp (- (1 / 2)) ## 1 / 2 ## exp (- (1 / 2)) ## 1 / 2 ## exp (- 2) ## g)
    = Some (\<lparr>pt_x = x - 1 / 2, pt_y = y - 1 / 2, accepted = True, path = None\<rparr>, g)"
proof -
  have nz: "exp (- (1 / 2) :: real) \<noteq> 0" "(1 / 2 :: real) \<noteq> 0" by simp_all
  have r: "randn (exp (- (1 / 2)) ## 1 / 2 ## h) = Some (- 1, h)" for h
    using randn_box_muller[OF nz, of 0 0 h] by (simp add: zeros_then_def box_muller_minus_one)
  show ?thesis
    using assms by (simp add: stepRWM_def r Math_random_simp Math_log_def Let_def)
qed

text \<open>
  C9. Start the stepping loop in a state whose history has at most 2000 samples (the reset
  state has none). Whatever the loop returns is the outcome of one kernel step per remaining
  iteration, each taken at the position the step before has stored and on the random source
  it has left, and after each of these steps: the history has at most 2000 samples; it is
  the last 2000 of the old history followed by the samples stored so far, in step order; the
  next push appends at the back and, at 2000 samples, drops the front one; and the position
  is the \<open>x, y\<close> of the last sample, which is the sample of the latest kernel result. The
  loop does return: for the slice and hit-and-run kernels on every random source, for the
  other kernels on every source in which non-zero draws keep occurring.
\<close>

theorem history_invariant:
  assumes "length (samples st) \<le> 2000"
  shows "(animate_loop algo target params k st accepts g = Some (st', accepts', g') \<longrightarrow>
          (\<exists>tr. length tr = nat (stepsPerFrame params - k)
             \<and> kernel_run algo target params st g tr
             \<and> st' = foldl store_result st (map fst tr)
             \<and> g' = last (g # map snd tr)
             \<and> accepts' = accepts + length (filter (\<lambda>x. accepted (fst x)) tr)
             \<and> (\<forall>n \<le> length tr.
                  let s = foldl store_result st (map fst (take n tr)) in
                    length (samples s) \<le> 2000
                    \<and> samples s = most_recent 2000 (samples st @ map (sample_of \<circ> fst) (take n tr))
                    \<and> (\<forall>r. samples (store_result s r)
                              = (if length (samples s) < 2000 then samples s @ [sample_of r]
                                 else tl (samples s) @ [sample_of r]))
                    \<and> (0 < n \<longrightarrow> samples s \<noteq> []
                          \<and> last (samples s) = sample_of (fst (tr ! (n - 1)))
                          \<and> st_x s = pt_x (last (samples s))
                          \<and> st_y s = pt_y (last (samples s))))))
       \<and> (algo \<in> {slice, hitnrun} \<or> (\<forall>n. \<exists>m. g !! (n + m) \<noteq> 0) \<longrightarrow>
            (\<exists>res. animate_loop algo target params k st accepts g = Some res))"
proof (intro conjI impI)
  assume "animate_loop algo target params k st accepts g = Some (st', accepts', g')"
  from animate_loop_run[OF this] obtain tr
    where tr: "length tr = nat (stepsPerFrame params - k)"
      "kernel_run algo target params st g tr"
      "st' = foldl store_result st (map fst tr)"
      "g' = last (g # map snd tr)"
      "accepts' = accepts + length (filter (\<lambda>x. accepted (fst x)) tr)"
    by blast
  have "length (samples s) \<le> 2000
      \<and> samples s = most_recent 2000 (samples st @ map (sample_of \<circ> fst) (take n tr))
      \<and> (\<forall>r. samples (store_result s r)
                = (if length (samples s) < 2000 then samples s @ [sample_of r]
                   else tl (samples s) @ [sample_of r]))
      \<and> (0 < n \<longrightarrow> samples s \<noteq> []
            \<and> last (samples s) = sample_of (fst (tr ! (n - 1)))
            \<and> st_x s = pt_x (last (samples s)) \<and> st_y s = pt_y (last (samples s)))"
    if n: "n \<le> length tr" and s: "s = foldl store_result st (map fst (take n tr))" for n s
  proof (intro conjI impI allI)
    show len: "length (samples s) \<le> 2000"
      unfolding s by (rule foldl_store_length[OF assms])
    show "samples s = most_recent 2000 (samples st @ map (sample_of \<circ> fst) (take n tr))"
      unfolding s by (simp add: foldl_store_recent[OF assms])
    show "samples (store_result s r)
        = (if length (samples s) < 2000 then samples s @ [sample_of r]
           else tl (samples s) @ [sample_of r])" for r
      by (rule store_result_fifo[OF len])
  next
    assume pos: "0 < n"
    then have ne: "map fst (take n tr) \<noteq> []" using n by auto
    have lastn: "last (map fst (take n tr)) = fst (tr ! (n - 1))"
      using n pos ne by (simp add: last_conv_nth min_absorb2)
    from foldl_store_last[OF ne, of st]
    show "samples s \<noteq> []" "last (samples s) = sample_of (fst (tr ! (n - 1)))"
      "st_x s = pt_x (last (samples s))" "st_y s = pt_y (last (samples s))"
      by (simp_all add: s lastn sample_of_def)
  qed
  with tr show "\<exists>tr. length tr = nat (stepsPerFrame params - k)
             \<and> kernel_run algo target params st g tr
             \<and> st' = foldl store_result st (map fst tr)
             \<and> g' = last (g # map snd tr)
             \<and> accepts' = accepts + length (filter (\<lambda>x. accepted (fst x)) tr)
             \<and> (\<forall>n \<le> length tr.
                  let s = foldl store_result st (map fst (take n tr)) in
                    length (samples s) \<le> 2000
                    \<and> samples s = most_recent 2000 (samples st @ map (sample_of \<circ> fst) (take n tr))
                    \<and> (\<forall>r. samples (store_result s r)
                              = (if length (samples s) < 2000 then samples s @ [sample_of r]
                                 else tl (samples s) @ [sample_of r]))
                    \<and> (0 < n \<longrightarrow> samples s \<noteq> []
                          \<and> last (samples s) = sample_of (fst (tr ! (n - 1)))
                          \<and> st_x s = pt_x (last (samples s))
                          \<and> st_y s = pt_y (last (samples s))))"
    unfolding Let_def by blast
next
  assume "algo \<in> {slice, hitnrun} \<or> (\<forall>n. \<exists>m. g !! (n + m) \<noteq> 0)"
  then show "\<exists>res. animate_loop algo target params k st accepts g = Some res"
    by (rule animate_loop_returns)
qed

theorem history_invariant_witness:
  "animate_loop rwm gaussian \<lparr>stepSize = 0.5, stepsPerFrame = 2, hmcSteps = 10, hmcEpsilon = 0.1\<rparr> 0
      \<lparr>st_x = 0.1, st_y = 0.1,
       samples = \<lparr>pt_x = 0.3, pt_y = 0.3, accepted = True\<rparr>
               # \<lparr>pt_x = 0.2, pt_y = 0.2, accepted = True\<rparr>
               # replicate 1998 \<lparr>pt_x = 0.1, pt_y = 0.1, accepted = False\<rparr>,
       currentPath = None\<rparr> 0
      (exp (- (1 / 2)) ## 1 / 2 ## exp (- (1 / 2)) ## 1 / 2 ## exp (- 2)
         ## exp (- (1 / 2)) ## 1 / 2 ## exp (- (1 / 2)) ## 1 / 2 ## exp (- 2) ## sconst (1 / 2))
   = Some (\<lparr>st_x = - 0.9, st_y = - 0.9,
            samples = replicate 1998 \<lparr>pt_x = 0.1, pt_y = 0.1, accepted = False\<rparr>
                    @ [\<lparr>pt_x = - 0.4, pt_y = - 0.4, accepted = True\<rparr>,
                       \<lparr>pt_x = - 0.9, pt_y = - 0.9, accepted = True\<rparr>],
            currentPath = None\<rparr>, 2, sconst (1 / 2))"
proof -
  define P where "P = \<lparr>stepSize = 0.5, stepsPerFrame = 2, hmcSteps = 10, hmcEpsilon = 0.1\<rparr>"
  define old where "old = \<lparr>pt_x = 0.3, pt_y = 0.3, accepted = True\<rparr>
               # \<lparr>pt_x = 0.2, pt_y = 0.2, accepted = True\<rparr>
               # replicate 1998 \<lparr>pt_x = 0.1 :: real, pt_y = 0.1 :: real, accepted = False\<rparr>"
  define S0 where "S0 = \<lparr>st_x = 0.1, st_y = 0.1, samples = old, currentPath = None\<rparr>"
  define G2 :: rng where "G2 = sconst (1 / 2)"
  define G1 where "G1 = exp (- (1 / 2)) ## 1 / 2 ## exp (- (1 / 2)) ## 1 / 2 ## exp (- 2) ## G2"
  define G where "G = exp (- (1 / 2)) ## 1 / 2 ## exp (- (1 / 2)) ## 1 / 2 ## exp (- 2) ## G1"
  define r1 :: Proposal where "r1 = \<lparr>pt_x = - 0.4, pt_y = - 0.4, accepted = True, path = None\<rparr>"
  define r2 :: Proposal where "r2 = \<lparr>pt_x = - 0.9, pt_y = - 0.9, accepted = True, path = None\<rparr>"
  have len: "length (samples S0) \<le> 2000" by (simp add: S0_def old_def)
  have steps: "stepsPerFrame P = 2" by (simp add: P_def)
  have k1: "kernel_step rwm P \<lparr>pt_x = 0.1, pt_y = 0.1\<rparr> (LOG_PROBS gaussian) (GRADIENTS gaussian) G
              = Some (r1, G1)"
    using rwm_gaussian_step[of "0.1" "0.1" G1] by (simp add: P_def G_def r1_def)
  have k2: "kernel_step rwm P \<lparr>pt_x = - 0.4, pt_y = - 0.4\<rparr> (LOG_PROBS gaussian) (GRADIENTS gaussian) G1
              = Some (r2, G2)"
    using rwm_gaussian_step[of "- 0.4" "- 0.4" G2] by (simp add: P_def G1_def r2_def)
  have "sset G = {exp (- (1 / 2)), 1 / 2, exp (- 2)}"
    by (auto simp: G_def G1_def G2_def)
  then have "G !! n \<noteq> 0" for n
    using snth_sset[of G n] by auto
  then have recurs: "rwm \<in> {slice, hitnrun} \<or> (\<forall>n. \<exists>m. G !! (n + m) \<noteq> 0)" by blast
  note inv = history_invariant[OF len, where algo = rwm and target = gaussian and params = P
      and k = 0 and accepts = 0 and g = G]
  from inv[THEN conjunct2, rule_format, OF recurs] obtain st' accepts' g'
    where run: "animate_loop rwm gaussian P 0 S0 0 G = Some (st', accepts', g')"
    by (metis prod_cases3)
  from inv[THEN conjunct1, rule_format, OF run] obtain tr
    where tr: "length tr = 2" "kernel_run rwm gaussian P S0 G tr"
      "st' = foldl store_result S0 (map fst tr)" "g' = last (G # map snd tr)"
      "accepts' = 0 + length (filter (\<lambda>x. accepted (fst x)) tr)"
      and after: "\<forall>n \<le> length tr.
          let s = foldl store_result S0 (map fst (take n tr)) in
            length (samples s) \<le> 2000
            \<and> samples s = most_recent 2000 (samples S0 @ map (sample_of \<circ> fst) (take n tr))
            \<and> (\<forall>r. samples (store_result s r)
                      = (if length (samples s) < 2000 then samples s @ [sample_of r]
                         else tl (samples s) @ [sample_of r]))
            \<and> (0 < n \<longrightarrow> samples s \<noteq> []
                  \<and> last (samples s) = sample_of (fst (tr ! (n - 1)))
                  \<and> st_x s = pt_x (last (samples s))
                  \<and> st_y s = pt_y (last (samples s)))"
    unfolding steps by auto
  from tr(1) obtain p q where pq: "tr = [p, q]"
    by (cases tr; cases "tl tr") auto
  have p: "p = (r1, G1)"
    using tr(2) k1 unfolding pq by (cases p) (simp add: S0_def)
  have q: "q = (r2, G2)"
    using tr(2) k2 unfolding pq p by (cases q) (simp add: store_result_fields r1_def)
  have trv: "tr = [(r1, G1), (r2, G2)]" by (simp add: pq p q)
  from after[rule_format, of 2] tr(3)
  have final: "samples st' = most_recent 2000 (old @ [sample_of r1, sample_of r2])"
    "st_x st' = pt_x (last (samples st'))" "st_y st' = pt_y (last (samples st'))"
    by (simp_all add: trv Let_def S0_def)
  have s: "samples st' = replicate 1998 \<lparr>pt_x = 0.1, pt_y = 0.1, accepted = False\<rparr>
                    @ [\<lparr>pt_x = - 0.4, pt_y = - 0.4, accepted = True\<rparr>,
                       \<lparr>pt_x = - 0.9, pt_y = - 0.9, accepted = True\<rparr>]"
    unfolding final(1) by (simp add: most_recent_def old_def sample_of_def r1_def r2_def)
  have xy: "st_x st' = - 0.9" "st_y st' = - 0.9"
    unfolding final(2,3) s by simp_all
  have cp: "currentPath st' = None"
    unfolding tr(3) trv by (simp add: store_result_fields r2_def)
  have st: "st' = \<lparr>st_x = - 0.9, st_y = - 0.9,
            samples = replicate 1998 \<lparr>pt_x = 0.1, pt_y = 0.1, accepted = False\<rparr>
                    @ [\<lparr>pt_x = - 0.4, pt_y = - 0.4, accepted = True\<rparr>,
                       \<lparr>pt_x = - 0.9, pt_y = - 0.9, accepted = True\<rparr>],
            currentPath = None\<rparr>"
    using s xy cp by (cases st') simp
  have acc: "accepts' = 2" using tr(5) by (simp add: trv r1_def r2_def)
  have g: "g' = sconst (1 / 2)" using tr(4) by (simp add: trv G2_def)
  from run show ?thesis
    unfolding st acc g P_def S0_def old_def G_def G1_def G2_def .
qed

text \<open>
  C10. With \<open>stepsPerFrame \<le> 0\<close> the stepping loop returns at once: no kernel is called (no
  draw is taken from the random source) and position, history and current path are
  unchanged.
\<close>

theorem nonpositive_steps_noop:
  "stepsPerFrame params \<le> 0 \<Longrightarrow>
     animate_loop algo target params 0 st accepts g = Some (st, accepts, g)"
  by (subst animate_loop.simps) simp

theorem nonpositive_steps_noop_witness:
  "animate_loop hmc donut \<lparr>stepSize = 0.5, stepsPerFrame = - 3, hmcSteps = 10, hmcEpsilon = 0.1\<rparr>
       0 reset_state 0 (sconst 0) = Some (reset_state, 0, sconst 0)"
  by (rule nonpositive_steps_noop) simp

end
